theory Spec2Isabelle
  imports Complex_Main "HOL-Library.Word"
begin

unbundle bit_operations_syntax

section \<open>Common data: errors, time, JavaScript maps\<close>

text \<open>
  Every \<^verbatim>\<open>throw\<close> and every rejected promise of the source is a value of this type.
  \<open>ContextMustBeNonEmptyString\<close> is the error of \<^verbatim>\<open>filterItems\<close>,
  \<open>ContextEmbeddingNotSet\<close> the one of \<^verbatim>\<open>getRelevanceScore\<close>; \<open>ProviderFailed\<close> and
  \<open>StorageFailed\<close> carry whatever the external embedding pipeline or the storage adapter
  threw. \<open>TypeError\<close> and \<open>RangeError\<close> are the two errors the language itself throws in
  \<^verbatim>\<open>getRelevantTimestamp\<close>: iterating a value that is not iterable, and
  \<^verbatim>\<open>toISOString\<close> on an invalid date.
\<close>

datatype error =
    ContextMustBeNonEmptyString
  | ContextEmbeddingNotSet
  | ProviderFailed string
  | StorageFailed string
  | TypeError string
  | RangeError string

text \<open>
  A point in time is the number of milliseconds since the epoch, the value of
  \<^verbatim>\<open>new Date(...).getTime()\<close>, an integer of magnitude at most \<open>8.64 * 10^15\<close>. The source
  stores the times it reads from the clock as ISO strings (\<^verbatim>\<open>toISOString\<close>) and reads
  them back with \<^verbatim>\<open>new Date(str)\<close>, which gives the same millisecond count.
\<close>

type_synonym timestamp = int

definition MAX_TIME :: int where
  "MAX_TIME = 8640000000000000"

text \<open>
  A truthy value found in a field that the source hands to \<^verbatim>\<open>new Date(...)\<close>: either it
  denotes the valid date with the given time value, or the date made from it is an
  Invalid Date, whose time value is NaN. A field that is absent or holds a falsy value
  is \<open>None\<close> of type \<open>date_value option\<close>.
\<close>

datatype date_value = Instant timestamp | Unparsable

text \<open>
  A JavaScript \<^verbatim>\<open>Map\<close> keeps its keys in insertion order; \<^verbatim>\<open>set\<close> on a key that is
  present replaces the value where it stands, \<^verbatim>\<open>delete\<close> removes the entry.
\<close>

type_synonym ('k, 'v) jsmap = "('k \<times> 'v) list"

definition jsmap_get :: "('k, 'v) jsmap \<Rightarrow> 'k \<Rightarrow> 'v option" where
  "jsmap_get m k = map_of m k"

definition jsmap_has :: "('k, 'v) jsmap \<Rightarrow> 'k \<Rightarrow> bool" where
  "jsmap_has m k = (jsmap_get m k \<noteq> None)"

fun jsmap_set :: "'k \<Rightarrow> 'v \<Rightarrow> ('k, 'v) jsmap \<Rightarrow> ('k, 'v) jsmap" where
  "jsmap_set k v [] = [(k, v)]"
| "jsmap_set k v ((a, b) # ps) =
     (if a = k then (k, v) # ps else (a, b) # jsmap_set k v ps)"

definition jsmap_delete :: "'k \<Rightarrow> ('k, 'v) jsmap \<Rightarrow> ('k, 'v) jsmap" where
  "jsmap_delete k m = filter (\<lambda>p. fst p \<noteq> k) m"

definition jsmap_values :: "('k, 'v) jsmap \<Rightarrow> 'v list" where
  "jsmap_values m = map snd m"

definition jsmap_keys :: "('k, 'v) jsmap \<Rightarrow> 'k list" where
  "jsmap_keys m = map fst m"

section \<open>JavaScript numbers\<close>

text \<open>
  A Number of the language: a finite IEEE 754 binary64 value, written as the real number
  it denotes, one of the two infinities, or NaN. Negative zero is not told apart from
  zero: no result below depends on the sign of a zero except the division of a non-zero
  number by zero, where the zero is taken to be positive.
\<close>

datatype number = Fin real | PosInf | NegInf | NaN

text \<open>
  Rounding to binary64, to nearest with ties to even. \<open>binade a\<close> is the exponent \<open>e\<close> with
  \<open>2^e \<le> a < 2^(e+1)\<close>, but not below \<open>-1022\<close> (the subnormal range shares the exponent
  of the smallest normal numbers); a double in that binade is an integer multiple of
  \<open>2^(e-52)\<close>. A result of magnitude \<open>2^1024\<close> or more is an infinity.
\<close>

function binade_up :: "real \<Rightarrow> int \<Rightarrow> int" where
  "binade_up a e = (if 2 \<le> a then binade_up (a / 2) (e + 1) else e)"
  by pat_completeness auto
termination
proof (relation "measure (\<lambda>(a, e). nat \<lfloor>a\<rfloor>)")
  show "wf (measure (\<lambda>(a, e). nat \<lfloor>a\<rfloor>))" by simp
next
  fix a :: real and e :: int
  assume a: "2 \<le> a"
  have "a / 2 \<le> a - 1" using a by simp
  then have "\<lfloor>a / 2\<rfloor> \<le> \<lfloor>a - 1\<rfloor>" by (rule floor_mono)
  moreover have "2 \<le> \<lfloor>a\<rfloor>" using a by (simp add: le_floor_iff)
  ultimately show "((a / 2, e + 1), (a, e)) \<in> measure (\<lambda>(a, e). nat \<lfloor>a\<rfloor>)" by simp
qed

function binade_down :: "real \<Rightarrow> int \<Rightarrow> int" where
  "binade_down a e = (if a < 1 \<and> - 1022 < e then binade_down (a * 2) (e - 1) else e)"
  by pat_completeness auto
termination
  by (relation "measure (\<lambda>(a, e). nat (e + 1022))") simp_all

declare binade_up.simps [simp del] binade_down.simps [simp del]

definition binade :: "real \<Rightarrow> int" where
  "binade a = (if 1 \<le> a then binade_up a 0 else binade_down a 0)"

definition round_half_even :: "real \<Rightarrow> int" where
  "round_half_even x =
     (let f = \<lfloor>x\<rfloor>; d = x - of_int f
      in if d < 1 / 2 then f
         else if 1 / 2 < d then f + 1
         else if even f then f else f + 1)"

definition scale :: "real \<Rightarrow> int \<Rightarrow> real" where
  "scale x k = (if 0 \<le> k then x * 2 ^ nat k else x / 2 ^ nat (- k))"

definition fl :: "real \<Rightarrow> number" where
  "fl x =
     (if x = 0 then Fin 0
      else (let e = binade \<bar>x\<bar>;
                y = scale (of_int (round_half_even (scale \<bar>x\<bar> (52 - e)))) (e - 52)
            in if 2 ^ 1024 \<le> y then (if 0 < x then PosInf else NegInf)
               else Fin (if 0 < x then y else - y)))"

text \<open>
  The arithmetic operators and the functions of \<^verbatim>\<open>Math\<close> that the source uses. Each
  operator gives the exact result rounded to binary64; \<^verbatim>\<open>Math.min\<close>, \<^verbatim>\<open>Math.max\<close>,
  \<^verbatim>\<open>Math.round\<close> and \<^verbatim>\<open>Math.floor\<close> are exact. \<^verbatim>\<open>Math.round\<close> takes a half up.
\<close>

fun js_neg :: "number \<Rightarrow> number" where
  "js_neg (Fin x) = Fin (- x)"
| "js_neg PosInf = NegInf"
| "js_neg NegInf = PosInf"
| "js_neg NaN = NaN"

fun js_add :: "number \<Rightarrow> number \<Rightarrow> number" where
  "js_add (Fin x) (Fin y) = fl (x + y)"
| "js_add NaN b = NaN"
| "js_add a NaN = NaN"
| "js_add PosInf NegInf = NaN"
| "js_add NegInf PosInf = NaN"
| "js_add PosInf b = PosInf"
| "js_add a PosInf = PosInf"
| "js_add NegInf b = NegInf"
| "js_add a NegInf = NegInf"

definition js_sub :: "number \<Rightarrow> number \<Rightarrow> number" where
  "js_sub a b = js_add a (js_neg b)"

fun js_mul :: "number \<Rightarrow> number \<Rightarrow> number" where
  "js_mul (Fin x) (Fin y) = fl (x * y)"
| "js_mul NaN b = NaN"
| "js_mul a NaN = NaN"
| "js_mul (Fin x) PosInf = (if x = 0 then NaN else if 0 < x then PosInf else NegInf)"
| "js_mul (Fin x) NegInf = (if x = 0 then NaN else if 0 < x then NegInf else PosInf)"
| "js_mul PosInf (Fin y) = (if y = 0 then NaN else if 0 < y then PosInf else NegInf)"
| "js_mul NegInf (Fin y) = (if y = 0 then NaN else if 0 < y then NegInf else PosInf)"
| "js_mul PosInf PosInf = PosInf"
| "js_mul NegInf NegInf = PosInf"
| "js_mul PosInf NegInf = NegInf"
| "js_mul NegInf PosInf = NegInf"

fun js_div :: "number \<Rightarrow> number \<Rightarrow> number" where
  "js_div (Fin x) (Fin y) =
     (if y = 0 then (if x = 0 then NaN else if 0 < x then PosInf else NegInf)
      else fl (x / y))"
| "js_div NaN b = NaN"
| "js_div a NaN = NaN"
| "js_div (Fin x) PosInf = Fin 0"
| "js_div (Fin x) NegInf = Fin 0"
| "js_div PosInf (Fin y) = (if 0 \<le> y then PosInf else NegInf)"
| "js_div NegInf (Fin y) = (if 0 \<le> y then NegInf else PosInf)"
| "js_div PosInf PosInf = NaN"
| "js_div PosInf NegInf = NaN"
| "js_div NegInf PosInf = NaN"
| "js_div NegInf NegInf = NaN"

fun js_min :: "number \<Rightarrow> number \<Rightarrow> number" where
  "js_min (Fin x) (Fin y) = Fin (min x y)"
| "js_min NaN b = NaN"
| "js_min a NaN = NaN"
| "js_min NegInf b = NegInf"
| "js_min a NegInf = NegInf"
| "js_min PosInf b = b"
| "js_min a PosInf = a"

fun js_max :: "number \<Rightarrow> number \<Rightarrow> number" where
  "js_max (Fin x) (Fin y) = Fin (max x y)"
| "js_max NaN b = NaN"
| "js_max a NaN = NaN"
| "js_max PosInf b = PosInf"
| "js_max a PosInf = PosInf"
| "js_max NegInf b = b"
| "js_max a NegInf = a"

text \<open>\<^verbatim>\<open>a < b\<close>; a comparison with NaN is false.\<close>

fun js_less :: "number \<Rightarrow> number \<Rightarrow> bool" where
  "js_less (Fin x) (Fin y) = (x < y)"
| "js_less NaN b = False"
| "js_less a NaN = False"
| "js_less a NegInf = False"
| "js_less PosInf b = False"
| "js_less NegInf b = True"
| "js_less a PosInf = True"

text \<open>\<^verbatim>\<open>a >= b\<close>; a comparison with NaN is false.\<close>

fun js_ge :: "number \<Rightarrow> number \<Rightarrow> bool" where
  "js_ge (Fin x) (Fin y) = (y \<le> x)"
| "js_ge NaN b = False"
| "js_ge a NaN = False"
| "js_ge PosInf b = True"
| "js_ge a NegInf = True"
| "js_ge NegInf b = False"
| "js_ge a PosInf = False"

fun Math_round :: "number \<Rightarrow> number" where
  "Math_round (Fin x) = Fin (of_int \<lfloor>x + 1 / 2\<rfloor>)"
| "Math_round a = a"

fun Math_floor :: "number \<Rightarrow> number" where
  "Math_floor (Fin x) = Fin (of_int \<lfloor>x\<rfloor>)"
| "Math_floor a = a"

definition isNaN :: "number \<Rightarrow> bool" where
  "isNaN a = (a = NaN)"

text \<open>Truthiness of a Number: zero and NaN are falsy.\<close>

definition truthy :: "number \<Rightarrow> bool" where
  "truthy a = (a \<noteq> Fin 0 \<and> a \<noteq> NaN)"

text \<open>
  \<^verbatim>\<open>Math.exp\<close> and \<^verbatim>\<open>Math.log\<close>. The language fixes their values at NaN, at the
  infinities, at zero and (for the logarithm) at 1 and below zero, and leaves every other
  value to the engine as an approximation of the mathematical function. Those values
  are a parameter of the functions that need them; \<open>nearest_engine\<close> is the engine that
  returns the nearest double.
\<close>

record engine =
  exp_approx :: "real \<Rightarrow> number"
  log_approx :: "real \<Rightarrow> number"

definition Math_exp :: "engine \<Rightarrow> number \<Rightarrow> number" where
  "Math_exp eng a =
     (case a of
        Fin x \<Rightarrow> if x = 0 then Fin 1 else exp_approx eng x
      | PosInf \<Rightarrow> PosInf
      | NegInf \<Rightarrow> Fin 0
      | NaN \<Rightarrow> NaN)"

definition Math_log :: "engine \<Rightarrow> number \<Rightarrow> number" where
  "Math_log eng a =
     (case a of
        Fin x \<Rightarrow> if x < 0 then NaN else if x = 0 then NegInf
                else if x = 1 then Fin 0 else log_approx eng x
      | PosInf \<Rightarrow> PosInf
      | NegInf \<Rightarrow> NaN
      | NaN \<Rightarrow> NaN)"

definition nearest_engine :: engine where
  "nearest_engine = \<lparr> exp_approx = (\<lambda>x. fl (exp x)), log_approx = (\<lambda>x. fl (ln x)) \<rparr>"

section \<open>Novelty tracker (src/signal/novelty.js)\<close>

text \<open>
  A novelty record. \<open>firstSeen\<close> and \<open>lastSeen\<close> are \<open>None\<close> when the field is absent or
  falsy (a record that came from a storage backend may lack them). \<open>seenCount\<close> is a
  count of at most \<open>2^53\<close>, 0 standing for an absent or falsy count. \<open>meta\<close> holds the
  properties of the record other than these four.
\<close>

record 'm novelty_record =
  itemId :: string
  firstSeen :: "date_value option"
  lastSeen :: "date_value option"
  seenCount :: nat
  meta :: 'm

text \<open>
  The \<open>metadata\<close> argument of \<^verbatim>\<open>markSeen\<close>. The source spreads it into a new record
  after the four fields it writes itself, so a metadata object with a property
  \<^verbatim>\<open>itemId\<close>, \<^verbatim>\<open>firstSeen\<close>, \<^verbatim>\<open>lastSeen\<close> or \<^verbatim>\<open>seenCount\<close> of its own replaces that field.
  \<open>own_...\<close> is \<open>None\<close> when the metadata has no such property, and otherwise the value
  of the property, read as the record field of that name is (a date field: \<open>None\<close> for
  a falsy value). \<open>other\<close> are the remaining properties.
\<close>

record 'm metadata =
  own_itemId :: "string option"
  own_firstSeen :: "date_value option option"
  own_lastSeen :: "date_value option option"
  own_seenCount :: "nat option"
  other :: 'm

text \<open>Metadata with none of the four properties, such as \<^verbatim>\<open>{ title, source }\<close>.\<close>

definition plain :: "'m \<Rightarrow> 'm metadata" where
  "plain x = \<lparr> own_itemId = None, own_firstSeen = None, own_lastSeen = None,
               own_seenCount = None, other = x \<rparr>"

text \<open>
  The storage port: \<^verbatim>\<open>load(ids)\<close> returns a Map from id to record, \<^verbatim>\<open>save(records)\<close>
  returns nothing; both may throw. \<open>'s\<close> is the backend's own state.
\<close>

record ('s, 'm) storage_adapter =
  load :: "string list \<Rightarrow> 's \<Rightarrow> error + ((string, 'm novelty_record) jsmap \<times> 's)"
  save :: "'m novelty_record list \<Rightarrow> 's \<Rightarrow> error + 's"

text \<open>\<^verbatim>\<open>MemoryStorageAdapter\<close>: its state is the Map \<^verbatim>\<open>this.data\<close>.\<close>

definition memory_load ::
  "string list \<Rightarrow> (string, 'm novelty_record) jsmap
     \<Rightarrow> error + ((string, 'm novelty_record) jsmap \<times> (string, 'm novelty_record) jsmap)" where
  "memory_load itemIds data =
     Inr (fold (\<lambda>i result. case jsmap_get data i of
                               Some r \<Rightarrow> jsmap_set i r result
                             | None \<Rightarrow> result) itemIds [],
          data)"

definition memory_save ::
  "'m novelty_record list \<Rightarrow> (string, 'm novelty_record) jsmap
     \<Rightarrow> error + (string, 'm novelty_record) jsmap" where
  "memory_save records data = Inr (fold (\<lambda>r d. jsmap_set (itemId r) r d) records data)"

definition MemoryStorageAdapter ::
  "((string, 'm novelty_record) jsmap, 'm) storage_adapter" where
  "MemoryStorageAdapter = \<lparr> load = memory_load, save = memory_save \<rparr>"

text \<open>
  The tracker. \<open>storage\<close> is the state of the backend behind the port, \<open>cache\<close> and
  \<open>pendingUpdates\<close> are the two Maps of the class. \<open>saveCalls\<close> is not a field of the
  source: it records the argument of every \<^verbatim>\<open>storage.save\<close> call made so far, so that
  "save was not called" can be stated.
\<close>

record ('s, 'm) tracker =
  storage :: 's
  halfLifeDays :: real
  minScore :: real
  cache :: "(string, 'm novelty_record) jsmap"
  pendingUpdates :: "(string, 'm novelty_record) jsmap"
  saveCalls :: "'m novelty_record list list"

definition DEFAULT_HALF_LIFE_DAYS :: real where
  "DEFAULT_HALF_LIFE_DAYS = 1"

definition MIN_NOVELTY_SCORE :: real where
  "MIN_NOVELTY_SCORE = 1 / 10"

text \<open>
  The constructor: \<^verbatim>\<open>options.halfLifeDays || 1\<close> and \<^verbatim>\<open>options.minScore || 0.1\<close>, so an
  absent option and the option 0 both give the default.
\<close>

definition NoveltyTracker :: "'s \<Rightarrow> real option \<Rightarrow> real option \<Rightarrow> ('s, 'm) tracker" where
  "NoveltyTracker st hl ms =
     \<lparr> storage = st,
       halfLifeDays = (case hl of None \<Rightarrow> DEFAULT_HALF_LIFE_DAYS
                        | Some h \<Rightarrow> if h = 0 then DEFAULT_HALF_LIFE_DAYS else h),
       minScore = (case ms of None \<Rightarrow> MIN_NOVELTY_SCORE
                    | Some m \<Rightarrow> if m = 0 then MIN_NOVELTY_SCORE else m),
       cache = [],
       pendingUpdates = [],
       saveCalls = [] \<rparr>"

definition loadBatch ::
  "('s, 'm) storage_adapter \<Rightarrow> string list \<Rightarrow> ('s, 'm) tracker \<Rightarrow> error + ('s, 'm) tracker" where
  "loadBatch ad itemIds t =
     (if itemIds = [] then Inr t
      else case load ad itemIds (storage t) of
             Inl e \<Rightarrow> Inl e
           | Inr (noveltyData, s') \<Rightarrow>
               Inr (t\<lparr> storage := s',
                       cache := fold (\<lambda>(i, d) c. jsmap_set i d c) noveltyData (cache t) \<rparr>))"

text \<open>
  \<open>now\<close> is the reading of the clock taken by \<^verbatim>\<open>new Date()\<close> inside the call. A record
  whose \<^verbatim>\<open>firstSeen\<close> makes an Invalid Date gives NaN: the difference of the two dates
  is NaN, and so is everything computed from it, \<^verbatim>\<open>Math.max\<close> included. For a valid
  date the score is written over the real numbers; the rounding of the doubles in which
  the source computes it is left out here.
\<close>

definition getNoveltyScore :: "('s, 'm) tracker \<Rightarrow> timestamp \<Rightarrow> string \<Rightarrow> number" where
  "getNoveltyScore t now i =
     (case jsmap_get (cache t) i of
        None \<Rightarrow> Fin 1
      | Some d \<Rightarrow>
          (case firstSeen d of
             None \<Rightarrow> Fin 1
           | Some Unparsable \<Rightarrow> NaN
           | Some (Instant fs) \<Rightarrow>
               (let daysSinceFirstSeen = real_of_int (now - fs) / (1000 * 60 * 60 * 24);
                    decayRate = ln 2 / halfLifeDays t;
                    novelty = exp (- decayRate * daysSinceFirstSeen)
                in Fin (max (minScore t) novelty))))"

definition hasSeen :: "('s, 'm) tracker \<Rightarrow> string \<Rightarrow> bool" where
  "hasSeen t i = jsmap_has (cache t) i"

text \<open>
  \<^verbatim>\<open>(existing.seenCount || 1) + 1\<close> on a count: the sum is exact below \<open>2^53\<close>, and at
  \<open>2^53\<close> adding 1 rounds back to \<open>2^53\<close>.
\<close>

definition next_count :: "nat \<Rightarrow> nat" where
  "next_count n = (let c = (if n = 0 then 1 else n) in if c < 2 ^ 53 then c + 1 else c)"

text \<open>
  The record \<^verbatim>\<open>{ itemId, firstSeen: now, lastSeen: now, seenCount: 1, ...metadata }\<close>.
\<close>

definition new_record :: "timestamp \<Rightarrow> string \<Rightarrow> 'm metadata \<Rightarrow> 'm novelty_record" where
  "new_record now i metadata =
     \<lparr> itemId = (case own_itemId metadata of None \<Rightarrow> i | Some v \<Rightarrow> v),
       firstSeen = (case own_firstSeen metadata of None \<Rightarrow> Some (Instant now) | Some v \<Rightarrow> v),
       lastSeen = (case own_lastSeen metadata of None \<Rightarrow> Some (Instant now) | Some v \<Rightarrow> v),
       seenCount = (case own_seenCount metadata of None \<Rightarrow> 1 | Some v \<Rightarrow> v),
       meta = other metadata \<rparr>"

definition markSeen ::
  "('s, 'm) tracker \<Rightarrow> timestamp \<Rightarrow> string \<Rightarrow> 'm metadata \<Rightarrow> ('s, 'm) tracker" where
  "markSeen t now i metadata =
     (case jsmap_get (cache t) i of
        Some existing \<Rightarrow>
          (let updated = existing\<lparr> lastSeen := Some (Instant now),
                                   seenCount := next_count (seenCount existing) \<rparr>
           in t\<lparr> cache := jsmap_set i updated (cache t),
                 pendingUpdates := jsmap_set i updated (pendingUpdates t) \<rparr>)
      | None \<Rightarrow>
          (let newRecord = new_record now i metadata
           in t\<lparr> cache := jsmap_set i newRecord (cache t),
                 pendingUpdates := jsmap_set i newRecord (pendingUpdates t) \<rparr>))"

definition flush :: "('s, 'm) storage_adapter \<Rightarrow> ('s, 'm) tracker \<Rightarrow> error + ('s, 'm) tracker" where
  "flush ad t =
     (if length (pendingUpdates t) = 0 then Inr t
      else (let records = jsmap_values (pendingUpdates t)
            in case save ad records (storage t) of
                 Inl e \<Rightarrow> Inl e
               | Inr s' \<Rightarrow> Inr (t\<lparr> storage := s',
                                    pendingUpdates := [],
                                    saveCalls := saveCalls t @ [records] \<rparr>)))"

text \<open>A run of \<^verbatim>\<open>markSeen\<close> calls, each with its clock reading, id and metadata.\<close>

fun markSeen_calls ::
  "('s, 'm) tracker \<Rightarrow> (timestamp \<times> string \<times> 'm metadata) list \<Rightarrow> ('s, 'm) tracker" where
  "markSeen_calls t [] = t"
| "markSeen_calls t ((now, i, metadata) # cs) = markSeen_calls (markSeen t now i metadata) cs"

definition calls_on ::
  "string \<Rightarrow> (timestamp \<times> string \<times> 'm metadata) list \<Rightarrow> (timestamp \<times> string \<times> 'm metadata) list" where
  "calls_on i cs = filter (\<lambda>c. fst (snd c) = i) cs"

section \<open>Strings\<close>

text \<open>
  Text is a list of 8-bit characters, read as the code units of the JavaScript string;
  the functions below are the ASCII part of the string operations the source uses
  (\<^verbatim>\<open>toLowerCase\<close>, \<^verbatim>\<open>trim\<close>, \<^verbatim>\<open>indexOf\<close>, \<^verbatim>\<open>includes\<close>, the character classes of
  its regular expressions).
\<close>

definition upper_chars :: string where
  "upper_chars = ''ABCDEFGHIJKLMNOPQRSTUVWXYZ''"

definition lower_chars :: string where
  "lower_chars = ''abcdefghijklmnopqrstuvwxyz''"

definition digit_chars :: string where
  "digit_chars = ''0123456789''"

definition is_lower :: "char \<Rightarrow> bool" where
  "is_lower c = (c \<in> set lower_chars)"

definition is_letter :: "char \<Rightarrow> bool" where
  "is_letter c = (c \<in> set upper_chars \<or> c \<in> set lower_chars)"

text \<open>The class \<^verbatim>\<open>[a-z0-9]\<close> under the \<^verbatim>\<open>i\<close> flag.\<close>

definition is_alnum :: "char \<Rightarrow> bool" where
  "is_alnum c = (is_letter c \<or> c \<in> set digit_chars)"

text \<open>The class \<^verbatim>\<open>\w\<close>, which decides where \<^verbatim>\<open>\b\<close> holds.\<close>

definition is_word_char :: "char \<Rightarrow> bool" where
  "is_word_char c = (is_alnum c \<or> c = CHR ''_'')"

definition is_space :: "char \<Rightarrow> bool" where
  "is_space c = (c \<in> set [CHR '' '', CHR 0x09, CHR 0x0A, CHR 0x0B, CHR 0x0C, CHR 0x0D])"

definition toLowerChar :: "char \<Rightarrow> char" where
  "toLowerChar c = (case map_of (zip upper_chars lower_chars) c of Some l \<Rightarrow> l | None \<Rightarrow> c)"

definition toLowerCase :: "string \<Rightarrow> string" where
  "toLowerCase s = map toLowerChar s"

definition trim :: "string \<Rightarrow> string" where
  "trim s = rev (dropWhile is_space (rev (dropWhile is_space s)))"

text \<open>\<^verbatim>\<open>s.indexOf(sub)\<close>: the first position where \<open>sub\<close> starts, \<open>None\<close> for -1.\<close>

fun indexOf :: "string \<Rightarrow> string \<Rightarrow> nat option" where
  "indexOf [] sub = (if sub = [] then Some 0 else None)"
| "indexOf (c # cs) sub =
     (if take (length sub) (c # cs) = sub then Some 0
      else map_option Suc (indexOf cs sub))"

definition str_includes :: "string \<Rightarrow> string \<Rightarrow> bool" where
  "str_includes s sub = (indexOf s sub \<noteq> None)"

text \<open>\<^verbatim>\<open>\b\<close> at position \<open>p\<close> of \<open>s\<close>: exactly one of the two neighbours is a word character.\<close>

definition word_boundary :: "string \<Rightarrow> nat \<Rightarrow> bool" where
  "word_boundary s p =
     ((0 < p \<and> p \<le> length s \<and> is_word_char (s ! (p - 1)))
        \<noteq> (p < length s \<and> is_word_char (s ! p)))"

text \<open>Decimal digits of a natural number, as string interpolation prints them.\<close>

fun show_nat :: "nat \<Rightarrow> string" where
  "show_nat n = (if n < 10 then [digit_chars ! n]
                 else show_nat (n div 10) @ [digit_chars ! (n mod 10)])"

declare show_nat.simps [simp del]

section \<open>Items\<close>

datatype confidence = High | Medium | Low

text \<open>
  The \<^verbatim>\<open>filter_result\<close> object that \<^verbatim>\<open>filterItems\<close> attaches to an item and that
  \<^verbatim>\<open>calculateSignalScore\<close> reads. A field is \<open>None\<close> when it is undefined.
\<close>

record filter_result =
  signal_type :: string
  confidence :: "confidence option"
  keyword_confidence :: "confidence option"
  matched_keyword :: "string option"
  is_watched :: bool
  reason :: string
  relevance_score :: "number option"
  novelty_score :: "number option"

text \<open>
  An item. A missing string field is the empty string (the source reads them as
  \<^verbatim>\<open>item.title || ''\<close>, and tests \<^verbatim>\<open>!item.id\<close>). \<open>metadata_count\<close> gives the numeric
  metadata fields (stars, points, ...), counts below \<open>2^53\<close>, 0 for an absent or falsy
  one; \<open>metadata_time\<close> gives the date fields of the metadata, \<open>None\<close> for an absent or
  falsy one, and so do \<open>fetched_at\<close>, \<open>item_timestamp\<close> and \<open>item_date\<close>. The last two fields
  are the ones \<^verbatim>\<open>filterItems\<close> adds to an item it lets through.
\<close>

record item =
  item_id :: string
  source :: string
  title :: string
  description :: string
  metadata_count :: "string \<Rightarrow> nat"
  metadata_time :: "string \<Rightarrow> date_value option"
  fetched_at :: "date_value option"
  item_timestamp :: "date_value option"
  item_date :: "date_value option"
  item_filter_result :: "filter_result option"
  filtered_at :: "timestamp option"

section \<open>Classifier (FilterContext of the filter module)\<close>

definition SIGNAL_TYPES :: "string list" where
  "SIGNAL_TYPES =
     [''competitive'', ''thesis-challenging'', ''opportunity'', ''technical'', ''trend'']"

record keyword_lists =
  exact :: "string list"
  generic :: "string list"

text \<open>An object keyed by signal type, as \<^verbatim>\<open>Object.entries\<close> lists it.\<close>

type_synonym signal_keywords = "(string \<times> keyword_lists) list"

definition DEFAULT_SIGNAL_KEYWORDS :: signal_keywords where
  "DEFAULT_SIGNAL_KEYWORDS =
     [(''competitive'',
         \<lparr> exact = [], generic = [''competitor'', ''alternative'', ''similar to'', ''competes with''] \<rparr>),
      (''thesis-challenging'',
         \<lparr> exact = [], generic = [''contradicts'', ''challenges'', ''disproves'', ''questions''] \<rparr>),
      (''opportunity'',
         \<lparr> exact = [], generic = [''pain point'', ''frustration'', ''problem'', ''gap'', ''need'',
                                   ''challenge'', ''struggle''] \<rparr>),
      (''technical'',
         \<lparr> exact = [], generic = [''architecture'', ''pattern'', ''approach'', ''implementation'',
                                   ''method'', ''framework''] \<rparr>),
      (''trend'',
         \<lparr> exact = [], generic = [''adoption'', ''growth'', ''rising'', ''popular'', ''trending'',
                                   ''enterprise''] \<rparr>)]"

text \<open>\<^verbatim>\<open>[...new Set(xs)]\<close>: the first occurrence of each element, in order.\<close>

definition uniq :: "'a list \<Rightarrow> 'a list" where
  "uniq xs = fold (\<lambda>x acc. if x \<in> set acc then acc else acc @ [x]) xs []"

record filter_context =
  seenIds :: "string set"
  contextKeywords :: "string list"
  signalKeywords :: signal_keywords
  userGlobalKeywords :: "string list"

definition FilterContext :: "string list \<Rightarrow> filter_context" where
  "FilterContext existingIds =
     \<lparr> seenIds = set existingIds,
       contextKeywords = [],
       signalKeywords = DEFAULT_SIGNAL_KEYWORDS,
       userGlobalKeywords = [] \<rparr>"

definition fc_markSeen :: "filter_context \<Rightarrow> string \<Rightarrow> filter_context" where
  "fc_markSeen fc i = fc\<lparr> seenIds := insert i (seenIds fc) \<rparr>"

definition fc_getNoveltyScore :: "filter_context \<Rightarrow> string \<Rightarrow> real" where
  "fc_getNoveltyScore fc i = (if i \<in> seenIds fc then 0 else 1)"

text \<open>
  \<^verbatim>\<open>setSignalKeywords(context, userKeywords)\<close>. The text mining of the context document
  (\<^verbatim>\<open>parseContextForSignalKeywords\<close>, a set of regular expressions over markdown
  sections) is not unfolded here: \<open>parsedKeywords\<close> is the object it returned, read as
  \<^verbatim>\<open>parsedKeywords[type]\<close>. \<open>userKeywords\<close> is the caller's object, read as
  \<^verbatim>\<open>userKeywords.global\<close> and \<^verbatim>\<open>userKeywords[type]\<close>.
\<close>

definition setSignalKeywords ::
  "(string \<Rightarrow> keyword_lists option) \<Rightarrow> (string \<Rightarrow> string list option) \<Rightarrow> filter_context
     \<Rightarrow> filter_context" where
  "setSignalKeywords parsedKeywords userKeywords fc =
     fc\<lparr> userGlobalKeywords :=
            map toLowerCase (case userKeywords ''global'' of Some g \<Rightarrow> g | None \<Rightarrow> []),
          signalKeywords :=
            map (\<lambda>ty.
                   (let userExact =
                          map toLowerCase (case userKeywords ty of Some u \<Rightarrow> u | None \<Rightarrow> [])
                    in (ty,
                        \<lparr> exact = uniq (userExact @ (case parsedKeywords ty of
                                                        Some k \<Rightarrow> exact k | None \<Rightarrow> [])),
                          generic = (case parsedKeywords ty of
                                       Some k \<Rightarrow> generic k | None \<Rightarrow> []) \<rparr>)))
                SIGNAL_TYPES \<rparr>"

text \<open>\<open>kws\<close> is the list \<^verbatim>\<open>extractContextKeywords(context)\<close> returned.\<close>

definition setContextKeywords :: "string list \<Rightarrow> filter_context \<Rightarrow> filter_context" where
  "setContextKeywords kws fc = fc\<lparr> contextKeywords := kws \<rparr>"

text \<open>
  The closure \<^verbatim>\<open>hasKeyword\<close> of \<^verbatim>\<open>classifySignalType\<close>, over the text of the item.
  For a keyword of letters and digits only, \<^verbatim>\<open>escapeRegExp\<close> changes nothing and the
  test is the regular expression \<^verbatim>\<open>\bkeyword\b\<close> with the \<^verbatim>\<open>i\<close> flag: some occurrence
  has a word boundary on both sides. Otherwise only the first occurrence found by
  \<^verbatim>\<open>indexOf\<close> is looked at.
\<close>

definition hasKeyword :: "string \<Rightarrow> string \<Rightarrow> bool" where
  "hasKeyword text keyword =
     (let textLower = toLowerCase text;
          keywordLower = toLowerCase keyword;
          isAlphanumericOnly = (keyword \<noteq> [] \<and> list_all is_alnum keyword)
      in if isAlphanumericOnly
         then list_ex (\<lambda>p. take (length keywordLower) (drop p textLower) = keywordLower
                            \<and> word_boundary text p
                            \<and> word_boundary text (p + length keywordLower))
                [0 ..< Suc (length text)]
         else (case indexOf textLower keywordLower of
                 None \<Rightarrow> False
               | Some idx \<Rightarrow>
                   (let beforeOk = (idx = 0 \<or> \<not> is_alnum (text ! (idx - 1)));
                        afterIdx = idx + length keyword;
                        afterOk = (afterIdx \<ge> length text \<or> \<not> is_alnum (text ! afterIdx))
                    in beforeOk \<and> afterOk)))"

record classification =
  ctype :: string
  keywordConfidence :: confidence
  matchedKeyword :: "string option"
  isWatched :: bool

text \<open>
  The two passes over \<^verbatim>\<open>Object.entries(this.signalKeywords)\<close>: the first entry, in
  order, one of whose keywords (in order) is in the text.
\<close>

fun first_match :: "(string \<Rightarrow> bool) \<Rightarrow> (string \<times> string list) list \<Rightarrow> (string \<times> string) option" where
  "first_match P [] = None"
| "first_match P ((signalType, kws) # rest) =
     (case find P kws of
        Some keyword \<Rightarrow> Some (signalType, keyword)
      | None \<Rightarrow> first_match P rest)"

definition item_text :: "item \<Rightarrow> string" where
  "item_text it = title it @ '' '' @ description it"

text \<open>
  \<open>matchedGlobalKeyword\<close> is \<open>None\<close> for \<^verbatim>\<open>null\<close>. The source tests it twice with
  \<^verbatim>\<open>!== null\<close> and three times by truthiness, and the empty string is not truthy.
\<close>

definition classifySignalType :: "filter_context \<Rightarrow> item \<Rightarrow> classification" where
  "classifySignalType fc it =
     (let text = item_text it;
          matchedGlobalKeyword = find (hasKeyword text) (userGlobalKeywords fc);
          globalTruthy = (case matchedGlobalKeyword of None \<Rightarrow> False | Some g \<Rightarrow> g \<noteq> [])
      in case first_match (hasKeyword text) (map (\<lambda>(ty, k). (ty, exact k)) (signalKeywords fc)) of
           Some (signalType, keyword) \<Rightarrow>
             \<lparr> ctype = signalType, keywordConfidence = High,
               matchedKeyword = Some keyword,
               isWatched = (matchedGlobalKeyword \<noteq> None) \<rparr>
         | None \<Rightarrow>
            (case first_match (hasKeyword text)
                    (map (\<lambda>(ty, k). (ty, generic k)) (signalKeywords fc)) of
               Some (signalType, keyword) \<Rightarrow>
                 \<lparr> ctype = signalType,
                   keywordConfidence = (if globalTruthy then High else Medium),
                   matchedKeyword = (if globalTruthy then matchedGlobalKeyword else Some keyword),
                   isWatched = (matchedGlobalKeyword \<noteq> None) \<rparr>
             | None \<Rightarrow>
                 (if globalTruthy
                  then \<lparr> ctype = ''technical'', keywordConfidence = High,
                         matchedKeyword = matchedGlobalKeyword, isWatched = True \<rparr>
                  else \<lparr> ctype = ''technical'', keywordConfidence = Low,
                         matchedKeyword = None, isWatched = False \<rparr>)))"

text \<open>
  The first match of \<^verbatim>\<open>/\b[A-Za-z][a-z]{3,}\b/\<close> in \<open>s\<close>: at the leftmost position with a
  word boundary, a letter, and then a run of at least three lower-case letters that
  ends at a word boundary. The run is taken whole: a shorter one would end between two
  word characters.
\<close>

definition word_at :: "string \<Rightarrow> nat \<Rightarrow> string option" where
  "word_at s p =
     (if p < length s \<and> is_letter (s ! p) \<and> word_boundary s p
      then (let run = takeWhile is_lower (drop (Suc p) s)
            in if 3 \<le> length run \<and> word_boundary s (Suc p + length run)
               then Some (s ! p # run) else None)
      else None)"

definition first_word :: "string \<Rightarrow> string option" where
  "first_word s =
     (case List.map_filter (word_at s) [0 ..< length s] of [] \<Rightarrow> None | w # _ \<Rightarrow> Some w)"

definition extractTopic :: "filter_context \<Rightarrow> item \<Rightarrow> string" where
  "extractTopic fc it =
     (let text = toLowerCase (item_text it)
      in case find (str_includes text) (userGlobalKeywords fc) of
           Some keyword \<Rightarrow> keyword
         | None \<Rightarrow>
            (case find (str_includes text) (contextKeywords fc) of
               Some keyword \<Rightarrow> keyword
             | None \<Rightarrow>
                (case first_word (title it) of
                   Some w \<Rightarrow> toLowerCase w
                 | None \<Rightarrow> ''your interests'')))"

definition getConfidence :: "real \<Rightarrow> confidence" where
  "getConfidence relevance =
     (if relevance \<ge> 6 / 10 then High
      else if relevance \<ge> 45 / 100 then Medium
      else Low)"

definition generateReason :: "string \<Rightarrow> item \<Rightarrow> filter_context \<Rightarrow> string" where
  "generateReason signalType it filterCtx =
     (let topic = extractTopic filterCtx it
      in if signalType = ''competitive''
           then ''Potential competitor or adjacent tool in the '' @ topic @ '' space''
         else if signalType = ''thesis-challenging''
           then ''May challenge assumptions about '' @ topic
         else if signalType = ''opportunity''
           then ''Potential opportunity in '' @ topic
         else if signalType = ''trend''
           then ''Emerging trend in '' @ topic
         else ''Technical approach relevant to '' @ topic)"

section \<open>Scorer (src/signal/scoring.js)\<close>

definition CONFIDENCE_SCORES :: "confidence \<Rightarrow> number" where
  "CONFIDENCE_SCORES c = (case c of High \<Rightarrow> Fin 100 | Medium \<Rightarrow> Fin 70 | Low \<Rightarrow> Fin 40)"

text \<open>A baseline object: metric name to median value.\<close>

type_synonym baseline = "string \<rightharpoonup> number"

definition DEFAULT_ENGAGEMENT_BASELINES :: "string \<rightharpoonup> baseline" where
  "DEFAULT_ENGAGEMENT_BASELINES =
     [''github'' \<mapsto> [''stars'' \<mapsto> Fin 1000, ''forks'' \<mapsto> Fin 100],
      ''hackernews'' \<mapsto> [''points'' \<mapsto> Fin 100, ''comments'' \<mapsto> Fin 50],
      ''reddit'' \<mapsto> [''score'' \<mapsto> Fin 100, ''comments'' \<mapsto> Fin 50],
      ''arxiv'' \<mapsto> [''citations'' \<mapsto> Fin 10],
      ''lobsters'' \<mapsto> [''score'' \<mapsto> Fin 20, ''comments'' \<mapsto> Fin 10],
      ''devto'' \<mapsto> [''reactions'' \<mapsto> Fin 50, ''comments'' \<mapsto> Fin 20],
      ''huggingface'' \<mapsto> [''likes'' \<mapsto> Fin 100, ''downloads'' \<mapsto> Fin 1000],
      ''producthunt'' \<mapsto> [''votes'' \<mapsto> Fin 200, ''comments'' \<mapsto> Fin 50]]"

definition DEFAULT_BASELINE :: baseline where
  "DEFAULT_BASELINE =
     [''stars'' \<mapsto> Fin 1, ''forks'' \<mapsto> Fin 1, ''points'' \<mapsto> Fin 1, ''comments'' \<mapsto> Fin 1,
      ''score'' \<mapsto> Fin 1, ''reactions'' \<mapsto> Fin 1, ''likes'' \<mapsto> Fin 1, ''downloads'' \<mapsto> Fin 1,
      ''votes'' \<mapsto> Fin 1, ''citations'' \<mapsto> Fin 1]"

text \<open>The time value of \<^verbatim>\<open>new Date(v)\<close> for a truthy \<open>v\<close>, as a Number.\<close>

definition time_value :: "date_value \<Rightarrow> number" where
  "time_value v = (case v of Instant t \<Rightarrow> Fin (of_int t) | Unparsable \<Rightarrow> NaN)"

text \<open>
  \<open>now\<close> is the clock reading of \<^verbatim>\<open>new Date()\<close>; \<open>ts\<close> is \<open>None\<close> for a falsy timestamp.
  A timestamp that makes an Invalid Date gives NaN, which \<^verbatim>\<open>Math.min\<close> and \<^verbatim>\<open>Math.max\<close>
  hand on. \<^verbatim>\<open>1000 * 60 * 60 * 24\<close> is exact.
\<close>

definition calculateRecencyScore ::
  "engine \<Rightarrow> timestamp \<Rightarrow> date_value option \<Rightarrow> number \<Rightarrow> number" where
  "calculateRecencyScore eng now ts halfLife =
     (case ts of
        None \<Rightarrow> Fin 50
      | Some v \<Rightarrow>
          (let ageMs = js_sub (Fin (of_int now)) (time_value v);
               ageDays = js_div ageMs (Fin (1000 * 60 * 60 * 24));
               decayRate = js_div (Math_log eng (Fin 2)) halfLife;
               score = js_mul (Fin 100) (Math_exp eng (js_mul (js_neg decayRate) ageDays))
           in js_max (Fin 0) (js_min (Fin 100) score)))"

text \<open>\<^verbatim>\<open>a || b\<close> on values that are undefined or truthy.\<close>

definition or_else :: "'a option \<Rightarrow> 'a option \<Rightarrow> 'a option" where
  "or_else a b = (case a of Some x \<Rightarrow> Some x | None \<Rightarrow> b)"

text \<open>
  The names that every object inherits from \<^verbatim>\<open>Object.prototype\<close>. A lookup
  \<^verbatim>\<open>obj[name]\<close> with one of them on an object that has no such property of its own finds
  the inherited member, a function (or, for \<^verbatim>\<open>__proto__\<close>, the prototype object): a
  truthy value that is not iterable.
\<close>

definition Object_prototype_names :: "string list" where
  "Object_prototype_names =
     [''constructor'', ''__defineGetter__'', ''__defineSetter__'', ''hasOwnProperty'',
      ''__lookupGetter__'', ''__lookupSetter__'', ''isPrototypeOf'',
      ''propertyIsEnumerable'', ''toString'', ''valueOf'', ''__proto__'',
      ''toLocaleString'']"

text \<open>
  \<open>timestampFields\<close> gives the properties of the caller's object of its own, each an
  array of field names; the default is the empty object. For a source that names an
  inherited member the loop \<^verbatim>\<open>for (const field of fields)\<close> throws a TypeError. The
  reddit field \<^verbatim>\<open>created_utc\<close> is a number of seconds; \<^verbatim>\<open>toISOString\<close> throws a
  RangeError when the date made from it is outside the range of dates.
\<close>

definition default_timestamp :: "item \<Rightarrow> error + date_value option" where
  "default_timestamp it =
     (let src = source it
      in if src = ''github''
           then Inr (or_else (metadata_time it ''pushed_at'')
                       (or_else (metadata_time it ''updated_at'') (fetched_at it)))
         else if src = ''hackernews''
           then Inr (or_else (metadata_time it ''created_at'') (fetched_at it))
         else if src = ''reddit''
           then (if metadata_count it ''created_utc'' \<noteq> 0
                 then (if int (metadata_count it ''created_utc'') * 1000 \<le> MAX_TIME
                       then Inr (Some (Instant (int (metadata_count it ''created_utc'') * 1000)))
                       else Inl (RangeError ''Invalid time value''))
                 else Inr (fetched_at it))
         else if src = ''arxiv''
           then Inr (or_else (metadata_time it ''published'') (fetched_at it))
         else Inr (or_else (fetched_at it) (or_else (item_timestamp it) (item_date it))))"

definition getRelevantTimestamp ::
  "item \<Rightarrow> (string \<rightharpoonup> string list) \<Rightarrow> error + date_value option" where
  "getRelevantTimestamp it timestampFields =
     (case timestampFields (source it) of
        Some fieldNames \<Rightarrow>
          (case List.map_filter (metadata_time it) fieldNames of
             t # _ \<Rightarrow> Inr (Some t)
           | [] \<Rightarrow> default_timestamp it)
      | None \<Rightarrow>
          (if source it \<in> set Object_prototype_names
           then Inl (TypeError ''fields is not iterable'')
           else default_timestamp it))"

definition getBaseline :: "string \<Rightarrow> (string \<rightharpoonup> baseline) \<Rightarrow> baseline" where
  "getBaseline src customBaselines =
     (let b = (case customBaselines src of
                 Some c \<Rightarrow> c
               | None \<Rightarrow> (case DEFAULT_ENGAGEMENT_BASELINES src of
                             Some d \<Rightarrow> d | None \<Rightarrow> Map.empty))
      in DEFAULT_BASELINE ++ b)"

text \<open>
  \<^verbatim>\<open>Math.min(100, (x / b) * 50)\<close> for the count \<open>x\<close> of a metric and its baseline \<open>b\<close>;
  an undefined baseline makes the quotient NaN.
\<close>

definition metric_score :: "nat \<Rightarrow> number option \<Rightarrow> number" where
  "metric_score x b =
     (case b of
        None \<Rightarrow> NaN
      | Some bv \<Rightarrow> js_min (Fin 100) (js_mul (js_div (Fin (real x)) bv) (Fin 50)))"

text \<open>\<^verbatim>\<open>(s1 * w1) + (s2 * w2)\<close>; the weights are decimal literals, each the nearest double.\<close>

definition weighted2 :: "number \<Rightarrow> real \<Rightarrow> number \<Rightarrow> real \<Rightarrow> number" where
  "weighted2 s1 w1 s2 w2 = js_add (js_mul s1 (fl w1)) (js_mul s2 (fl w2))"

definition calculateEngagementScore :: "item \<Rightarrow> (string \<rightharpoonup> baseline) \<Rightarrow> number" where
  "calculateEngagementScore it customBaselines =
     (let src = source it;
          m = metadata_count it;
          baseline = getBaseline src customBaselines;
          score =
            (if src = ''github''
               then weighted2 (metric_score (m ''stars'') (baseline ''stars'')) (7 / 10)
                              (metric_score (m ''forks'') (baseline ''forks'')) (3 / 10)
             else if src = ''hackernews''
               then weighted2 (metric_score (m ''points'') (baseline ''points'')) (6 / 10)
                              (metric_score (m ''comments'') (baseline ''comments'')) (4 / 10)
             else if src = ''reddit''
               then weighted2 (metric_score (m ''score'') (baseline ''score'')) (6 / 10)
                              (metric_score (m ''comments'') (baseline ''comments'')) (4 / 10)
             else if src = ''lobsters''
               then weighted2 (metric_score (m ''score'') (baseline ''score'')) (6 / 10)
                              (metric_score (m ''comments'') (baseline ''comments'')) (4 / 10)
             else if src = ''devto''
               then weighted2 (metric_score (m ''reactions'') (baseline ''reactions'')) (6 / 10)
                              (metric_score (m ''comments'') (baseline ''comments'')) (4 / 10)
             else if src = ''huggingface''
               then weighted2 (metric_score (m ''likes'') (baseline ''likes'')) (5 / 10)
                              (metric_score (m ''downloads'') (baseline ''downloads'')) (5 / 10)
             else if src = ''producthunt''
               then weighted2 (metric_score (m ''votes'') (baseline ''votes'')) (7 / 10)
                              (metric_score (m ''comments'') (baseline ''comments'')) (3 / 10)
             else if m ''likes'' \<noteq> 0 \<or> m ''reactions'' \<noteq> 0 \<or> m ''upvotes'' \<noteq> 0
               then (let engagement = (if m ''likes'' \<noteq> 0 then m ''likes''
                                       else if m ''reactions'' \<noteq> 0 then m ''reactions''
                                       else m ''upvotes'')
                     in js_min (Fin 100) (js_div (Fin (real engagement)) (Fin 10)))
             else Fin 50);
          score' = (if isNaN score then Fin 50 else score)
      in js_max (Fin 0) (js_min (Fin 100) score'))"

text \<open>
  The options object of \<^verbatim>\<open>calculateSignalScore\<close> and \<^verbatim>\<open>scoreAndSortSignals\<close>; a weight
  is \<open>None\<close> when the caller left it undefined, and the default applies.
\<close>

record scoring_options =
  relevanceWeight :: "number option"
  recencyWeight :: "number option"
  engagementWeight :: "number option"
  engagementBaselines :: "string \<rightharpoonup> baseline"
  sortBy :: "string option"

definition default_scoring_options :: scoring_options where
  "default_scoring_options =
     \<lparr> relevanceWeight = None, recencyWeight = None, engagementWeight = None,
       engagementBaselines = Map.empty, sortBy = None \<rparr>"

definition the_default :: "'a \<Rightarrow> 'a option \<Rightarrow> 'a" where
  "the_default d x = (case x of None \<Rightarrow> d | Some v \<Rightarrow> v)"

record score_breakdown =
  relevance :: number
  recency :: number
  engagement :: number

text \<open>The item with the two fields \<^verbatim>\<open>calculateSignalScore\<close> adds.\<close>

record scored_item =
  scored :: item
  signalScore :: number
  scoreBreakdown :: score_breakdown

text \<open>
  The relevance sub-score: the \<^verbatim>\<open>relevance_score\<close> of the filter result when it is
  defined, and otherwise the score of the confidence, medium by default.
\<close>

definition relevance_sub_score :: "item \<Rightarrow> number" where
  "relevance_sub_score it =
     (case (case item_filter_result it of None \<Rightarrow> None | Some fr \<Rightarrow> relevance_score fr) of
        Some r \<Rightarrow> r
      | None \<Rightarrow>
          (let conf = the_default Medium
                        (case item_filter_result it of None \<Rightarrow> None | Some fr \<Rightarrow> confidence fr)
           in CONFIDENCE_SCORES conf))"

text \<open>
  The three weights after the defaults of the destructuring have been applied; a
  default is the double nearest to the decimal literal.
\<close>

definition weight_relevance :: "scoring_options \<Rightarrow> number" where
  "weight_relevance options = the_default (fl (45 / 100)) (relevanceWeight options)"

definition weight_recency :: "scoring_options \<Rightarrow> number" where
  "weight_recency options = the_default (fl (35 / 100)) (recencyWeight options)"

definition weight_engagement :: "scoring_options \<Rightarrow> number" where
  "weight_engagement options = the_default (fl (20 / 100)) (engagementWeight options)"

text \<open>
  \<^verbatim>\<open>calculateSignalScore(item, options)\<close>. The only failure is the one of
  \<^verbatim>\<open>getRelevantTimestamp\<close>, which is called with an item alone. The composite is the
  rounded sum and nothing else: no minimum or maximum is applied to it.
\<close>

definition calculateSignalScore ::
  "engine \<Rightarrow> timestamp \<Rightarrow> item \<Rightarrow> scoring_options \<Rightarrow> error + scored_item" where
  "calculateSignalScore eng now it options =
     (let relevanceWeight = weight_relevance options;
          recencyWeight = weight_recency options;
          engagementWeight = weight_engagement options;
          relevanceScore = relevance_sub_score it
      in case getRelevantTimestamp it Map.empty of
           Inl e \<Rightarrow> Inl e
         | Inr ts \<Rightarrow>
            (let recencyScore = calculateRecencyScore eng now ts (Fin 7);
                 engagementScore = calculateEngagementScore it (engagementBaselines options)
             in Inr \<lparr> scored = it,
                      signalScore =
                        Math_round (js_add (js_add (js_mul relevanceScore relevanceWeight)
                                                  (js_mul recencyScore recencyWeight))
                                          (js_mul engagementScore engagementWeight)),
                      scoreBreakdown = \<lparr> relevance = Math_round relevanceScore,
                                         recency = Math_round recencyScore,
                                         engagement = Math_round engagementScore \<rparr> \<rparr>))"

text \<open>
  \<^verbatim>\<open>signals.map(signal => calculateSignalScore(signal, options))\<close>: the first failure
  ends the call. \<open>clock\<close> gives the reading of the clock for the k-th signal scored.
\<close>

fun score_all ::
  "engine \<Rightarrow> (nat \<Rightarrow> timestamp) \<Rightarrow> nat \<Rightarrow> item list \<Rightarrow> scoring_options
     \<Rightarrow> error + scored_item list" where
  "score_all eng clock k [] options = Inr []"
| "score_all eng clock k (signal # signals) options =
     (case calculateSignalScore eng (clock k) signal options of
        Inl e \<Rightarrow> Inl e
      | Inr s \<Rightarrow>
          (case score_all eng clock (Suc k) signals options of
             Inl e \<Rightarrow> Inl e
           | Inr ss \<Rightarrow> Inr (s # ss)))"

text \<open>
  \<^verbatim>\<open>Array.prototype.sort\<close> with a comparator \<^verbatim>\<open>(a, b) => key(b) - key(a)\<close>. The sort is
  stable and a comparator result that is NaN counts as zero, so an element moves behind
  another one only when the comparator says so. With a NaN or two equal infinities among
  the keys the comparator is no consistent ordering and the language leaves the order to
  the engine; this is the order of a stable insertion sort.
\<close>

fun insert_by :: "('a \<Rightarrow> number) \<Rightarrow> 'a \<Rightarrow> 'a list \<Rightarrow> 'a list" where
  "insert_by key x [] = [x]"
| "insert_by key x (y # ys) =
     (if js_less (Fin 0) (js_sub (key y) (key x)) then y # insert_by key x ys else x # y # ys)"

definition sort_descending :: "('a \<Rightarrow> number) \<Rightarrow> 'a list \<Rightarrow> 'a list" where
  "sort_descending key xs = foldr (insert_by key) xs []"

definition scoreAndSortSignals ::
  "engine \<Rightarrow> (nat \<Rightarrow> timestamp) \<Rightarrow> item list \<Rightarrow> scoring_options \<Rightarrow> error + scored_item list" where
  "scoreAndSortSignals eng clock signals options =
     (case score_all eng clock 0 signals options of
        Inl e \<Rightarrow> Inl e
      | Inr scoredSignals \<Rightarrow>
          Inr (if sortBy options = Some ''recency''
                 then sort_descending (\<lambda>s. recency (scoreBreakdown s)) scoredSignals
               else if sortBy options = Some ''engagement''
                 then sort_descending (\<lambda>s. engagement (scoreBreakdown s)) scoredSignals
               else if sortBy options = Some ''relevance''
                 then sort_descending (\<lambda>s. relevance (scoreBreakdown s)) scoredSignals
               else sort_descending signalScore scoredSignals))"

text \<open>
  A Number in a template literal, for the integral values \<^verbatim>\<open>Math.floor\<close> returns
  (below \<open>10^21\<close>, where the digits are written out).
\<close>

definition show_number :: "number \<Rightarrow> string" where
  "show_number a =
     (case a of
        Fin x \<Rightarrow> if x < 0 then ''-'' @ show_nat (nat \<lfloor>- x\<rfloor>) else show_nat (nat \<lfloor>x\<rfloor>)
      | PosInf \<Rightarrow> ''Infinity''
      | NegInf \<Rightarrow> ''-Infinity''
      | NaN \<Rightarrow> ''NaN'')"

definition getRecencyLabel :: "timestamp \<Rightarrow> date_value option \<Rightarrow> string" where
  "getRecencyLabel now ts =
     (case ts of
        None \<Rightarrow> ''Unknown''
      | Some v \<Rightarrow>
          (let diffMs = js_sub (Fin (of_int now)) (time_value v);
               diffHours = js_div diffMs (Fin (1000 * 60 * 60));
               diffDays = js_div diffMs (Fin (1000 * 60 * 60 * 24))
           in if js_less diffHours (Fin 1) then ''Just now''
              else if js_less diffHours (Fin 24) then show_number (Math_floor diffHours) @ ''h ago''
              else if js_less diffDays (Fin 2) then ''Yesterday''
              else if js_less diffDays (Fin 7) then show_number (Math_floor diffDays) @ ''d ago''
              else if js_less diffDays (Fin 14) then ''Last week''
              else if js_less diffDays (Fin 30)
                then show_number (Math_floor (js_div diffDays (Fin 7))) @ ''w ago''
              else if js_less diffDays (Fin 60) then ''Last month''
              else show_number (Math_floor (js_div diffDays (Fin 30))) @ ''mo ago''))"

section \<open>Vector cache and similarity engine (src/signal/embeddings.js)\<close>

text \<open>
  \<^verbatim>\<open>hashString\<close>: \<^verbatim>\<open>hash = ((hash << 5) - hash) + char; hash = hash & hash\<close> keeps the
  low 32 bits, read as a signed integer; the key is that integer in base 36.
\<close>

definition base36_chars :: string where
  "base36_chars = ''0123456789abcdefghijklmnopqrstuvwxyz''"

fun digits36 :: "nat \<Rightarrow> string" where
  "digits36 n = (if n < 36 then [base36_chars ! n]
                 else digits36 (n div 36) @ [base36_chars ! (n mod 36)])"

declare digits36.simps [simp del]

definition toString36 :: "int \<Rightarrow> string" where
  "toString36 i = (if i < 0 then CHR ''-'' # digits36 (nat (- i)) else digits36 (nat i))"

definition hash_step :: "char \<Rightarrow> 32 word \<Rightarrow> 32 word" where
  "hash_step c hash = (push_bit 5 hash - hash) + of_nat (of_char c)"

definition hashString :: "string \<Rightarrow> string" where
  "hashString str = toString36 (sint (fold hash_step str 0))"

definition CHUNK_SIZE :: nat where
  "CHUNK_SIZE = 1800"

definition CHUNK_OVERLAP :: nat where
  "CHUNK_OVERLAP = 200"

definition CHUNK_WEIGHT_DECAY :: real where
  "CHUNK_WEIGHT_DECAY = 8 / 10"

definition DEFAULT_CACHE_SIZE :: nat where
  "DEFAULT_CACHE_SIZE = 1000"

text \<open>
  An embedding is the list of the entries of the \<^verbatim>\<open>Float32Array\<close>. The entries, the
  weighted average of the chunk embeddings and the cosine similarity are written over
  the real numbers; the rounding of the floating-point numbers in which the source
  computes them is left out in this module.
\<close>

type_synonym embedding = "real list"

text \<open>
  The shared pipeline, called as \<^verbatim>\<open>sharedPipeline(text, {pooling, normalize})\<close>: the
  external embedding capability. It gives the array \<^verbatim>\<open>output.data\<close> or throws, and it
  is a function of the text (the provider is stateless).
\<close>

type_synonym pipeline = "string \<Rightarrow> error + embedding"

subsection \<open>LRUCache\<close>

definition lru_get ::
  "string \<Rightarrow> (string, embedding) jsmap \<Rightarrow> embedding option \<times> (string, embedding) jsmap" where
  "lru_get key c =
     (case jsmap_get c key of
        None \<Rightarrow> (None, c)
      | Some v \<Rightarrow> (Some v, jsmap_set key v (jsmap_delete key c)))"

text \<open>On an empty Map \<^verbatim>\<open>keys().next().value\<close> is undefined and the delete does nothing.\<close>

definition lru_set ::
  "nat \<Rightarrow> string \<Rightarrow> embedding \<Rightarrow> (string, embedding) jsmap \<Rightarrow> (string, embedding) jsmap" where
  "lru_set maxSize key v c =
     (let c' = (if jsmap_has c key then jsmap_delete key c
                else if length c \<ge> maxSize
                  then (case c of [] \<Rightarrow> c | (firstKey, _) # _ \<Rightarrow> jsmap_delete firstKey c)
                else c)
      in jsmap_set key v c')"

subsection \<open>EmbeddingContext\<close>

text \<open>
  \<open>pipelineCalls\<close> is not a field of the source: it lists the texts the shared pipeline
  was called with, so that the number of calls can be stated.
\<close>

record embedding_context =
  contextEmbedding :: "embedding option"
  lru_maxSize :: nat
  lru_cache :: "(string, embedding) jsmap"
  pipelineCalls :: "string list"

text \<open>\<^verbatim>\<open>new LRUCache(options.cacheSize || DEFAULT_CACHE_SIZE)\<close>.\<close>

definition EmbeddingContext :: "nat option \<Rightarrow> embedding_context" where
  "EmbeddingContext cacheSize =
     \<lparr> contextEmbedding = None,
       lru_maxSize = (case cacheSize of None \<Rightarrow> DEFAULT_CACHE_SIZE
                      | Some n \<Rightarrow> if n = 0 then DEFAULT_CACHE_SIZE else n),
       lru_cache = [],
       pipelineCalls = [] \<rparr>"

text \<open>
  The chunks of a long text: \<^verbatim>\<open>text.slice(i, i + CHUNK_SIZE)\<close> for
  \<^verbatim>\<open>i = 0, CHUNK_SIZE - CHUNK_OVERLAP, ...\<close> while \<^verbatim>\<open>i < text.length\<close>.
\<close>

function chunks_of :: "string \<Rightarrow> string list" where
  "chunks_of s = (if s = [] then []
                  else take CHUNK_SIZE s # chunks_of (drop (CHUNK_SIZE - CHUNK_OVERLAP) s))"
  by pat_completeness auto
termination
  by (relation "measure length") (auto simp: CHUNK_SIZE_def CHUNK_OVERLAP_def)

declare chunks_of.simps [simp del]

text \<open>
  The loop that embeds the chunks one after the other. The second component lists the
  chunks the pipeline was called with; the loop stops at the first call that throws.
\<close>

fun embed_chunks :: "pipeline \<Rightarrow> string list \<Rightarrow> (error + embedding list) \<times> string list" where
  "embed_chunks p [] = (Inr [], [])"
| "embed_chunks p (c # cs) =
     (case p c of
        Inl e \<Rightarrow> (Inl e, [c])
      | Inr v \<Rightarrow>
          (case embed_chunks p cs of
             (Inl e, calls) \<Rightarrow> (Inl e, c # calls)
           | (Inr vs, calls) \<Rightarrow> (Inr (v # vs), c # calls)))"

text \<open>
  \<^verbatim>\<open>avgEmbedding[j] += emb[j] * weight\<close> for \<^verbatim>\<open>j < emb.length\<close>; a write past the end
  of the typed array \<open>avg\<close> is dropped.
\<close>

definition add_weighted :: "embedding \<Rightarrow> embedding \<Rightarrow> real \<Rightarrow> embedding" where
  "add_weighted avg emb w =
     map (\<lambda>j. avg ! j + (if j < length emb then emb ! j * w else 0)) [0 ..< length avg]"

text \<open>
  The weighted average of the chunk embeddings, normalised. When the norm is 0 the
  source divides 0 by 0 and fills the array with NaN; here the entries stay 0.
\<close>

definition combine_chunks :: "embedding list \<Rightarrow> embedding" where
  "combine_chunks embeddings =
     (let weights = map (\<lambda>idx. CHUNK_WEIGHT_DECAY ^ idx) [0 ..< length embeddings];
          totalWeight = fold (\<lambda>b a. a + b) weights 0;
          zero = replicate (case embeddings of [] \<Rightarrow> 0 | e # _ \<Rightarrow> length e) 0;
          avgEmbedding = fold (\<lambda>(emb, wt) avg. add_weighted avg emb (wt / totalWeight))
                              (zip embeddings weights) zero;
          norm = sqrt (fold (\<lambda>x n. n + x * x) avgEmbedding 0)
      in map (\<lambda>x. x / norm) avgEmbedding)"

text \<open>\<^verbatim>\<open>_computeEmbedding\<close>, with the list of the pipeline calls it made.\<close>

definition computeEmbedding :: "pipeline \<Rightarrow> string \<Rightarrow> (error + embedding) \<times> string list" where
  "computeEmbedding p text =
     (if length text \<le> CHUNK_SIZE then (p text, [text])
      else (case embed_chunks p (chunks_of text) of
              (Inl e, calls) \<Rightarrow> (Inl e, calls)
            | (Inr embeddings, calls) \<Rightarrow> (Inr (combine_chunks embeddings), calls)))"

text \<open>
  \<^verbatim>\<open>embed(text)\<close>, awaited on its own. The shared pipeline is taken to be loaded
  (\<^verbatim>\<open>init\<close> has run), and an embedding, being an array, is truthy.
\<close>

definition embed ::
  "pipeline \<Rightarrow> string \<Rightarrow> embedding_context \<Rightarrow> error + (embedding \<times> embedding_context)" where
  "embed p text ctx =
     (let hash = hashString text
      in case lru_get hash (lru_cache ctx) of
           (Some cached, c') \<Rightarrow> Inr (cached, ctx\<lparr> lru_cache := c' \<rparr>)
         | (None, c') \<Rightarrow>
             (case computeEmbedding p text of
                (Inl e, calls) \<Rightarrow> Inl e
              | (Inr embedding, calls) \<Rightarrow>
                  Inr (embedding,
                       ctx\<lparr> lru_cache := lru_set (lru_maxSize ctx) hash embedding c',
                            pipelineCalls := pipelineCalls ctx @ calls \<rparr>)))"

definition setContext ::
  "pipeline \<Rightarrow> string \<Rightarrow> embedding_context \<Rightarrow> error + (embedding \<times> embedding_context)" where
  "setContext p contextText ctx =
     (case embed p contextText ctx of
        Inl e \<Rightarrow> Inl e
      | Inr (v, ctx') \<Rightarrow> Inr (v, ctx'\<lparr> contextEmbedding := Some v \<rparr>))"

text \<open>
  \<^verbatim>\<open>cosineSimilarity(a, b)\<close>. The loop runs over the indices of \<open>a\<close>; the embeddings of one
  pipeline have one length, and \<open>b\<close> is taken to be at least as long as \<open>a\<close>.
\<close>

definition cosineSimilarity :: "embedding \<Rightarrow> embedding \<Rightarrow> real" where
  "cosineSimilarity a b =
     (let dotProduct = fold (\<lambda>(x, y) d. d + x * y) (zip a b) 0;
          normA = fold (\<lambda>(x, y) n. n + x * x) (zip a b) 0;
          normB = fold (\<lambda>(x, y) n. n + y * y) (zip a b) 0;
          magnitude = sqrt normA * sqrt normB
      in if magnitude = 0 then 0
         else max (- 1) (min 1 (dotProduct / magnitude)))"

definition relevance_text :: "item \<Rightarrow> string" where
  "relevance_text it = trim (title it @ '' '' @ description it)"

text \<open>\<^verbatim>\<open>getRelevanceScore(item)\<close>, awaited on its own.\<close>

definition getRelevanceScore ::
  "pipeline \<Rightarrow> item \<Rightarrow> embedding_context \<Rightarrow> error + (real \<times> embedding_context)" where
  "getRelevanceScore p it ctx =
     (case contextEmbedding ctx of
        None \<Rightarrow> Inl ContextEmbeddingNotSet
      | Some ce \<Rightarrow>
          (let text = relevance_text it
           in if text = [] then Inr (0, ctx)
              else (case embed p text ctx of
                      Inl e \<Rightarrow> Inl e
                    | Inr (itemEmbedding, ctx') \<Rightarrow>
                        Inr (cosineSimilarity ce itemEmbedding, ctx'))))"

subsection \<open>One concurrent group of batchRelevanceScores\<close>

text \<open>
  \<^verbatim>\<open>batch.map(item => this.getRelevanceScore(item)...)\<close> starts every call of the group
  before any of them is resumed: an async function runs synchronously up to its first
  pending \<^verbatim>\<open>await\<close>, which here is the call of the shared pipeline. So each call of the
  group first does its part up to the cache lookup, in the order of the items, against a
  cache that holds nothing from the same group.
\<close>

datatype started =
    Rejected error
  | Resolved real
  | CacheHit embedding
  | CacheMiss string string

fun start_group ::
  "item list \<Rightarrow> embedding_context \<Rightarrow> (string \<times> started) list \<times> embedding_context" where
  "start_group [] ctx = ([], ctx)"
| "start_group (it # its) ctx =
     (case contextEmbedding ctx of
        None \<Rightarrow>
          (case start_group its ctx of
             (rs, ctx') \<Rightarrow> ((item_id it, Rejected ContextEmbeddingNotSet) # rs, ctx'))
      | Some ce \<Rightarrow>
          (let text = relevance_text it
           in if text = []
              then (case start_group its ctx of
                      (rs, ctx') \<Rightarrow> ((item_id it, Resolved 0) # rs, ctx'))
              else (let hash = hashString text
                    in case lru_get hash (lru_cache ctx) of
                         (Some cached, c') \<Rightarrow>
                           (case start_group its (ctx\<lparr> lru_cache := c' \<rparr>) of
                              (rs, ctx') \<Rightarrow> ((item_id it, CacheHit cached) # rs, ctx'))
                       | (None, c') \<Rightarrow>
                           (case start_group its (ctx\<lparr> lru_cache := c' \<rparr>) of
                              (rs, ctx') \<Rightarrow> ((item_id it, CacheMiss text hash) # rs, ctx')))))"

text \<open>
  Then the pending calls are resumed: each computes its embedding, stores it in the
  cache and yields its similarity. They are completed here in the order they were
  started. \<^verbatim>\<open>Promise.all\<close> rejects as soon as one call rejects, and nothing catches it.
\<close>

fun finish_group ::
  "pipeline \<Rightarrow> embedding \<Rightarrow> (string \<times> started) list \<Rightarrow> embedding_context
     \<Rightarrow> error + ((string \<times> real) list \<times> embedding_context)" where
  "finish_group p ce [] ctx = Inr ([], ctx)"
| "finish_group p ce ((i, st) # rest) ctx =
     (case st of
        Rejected e \<Rightarrow> Inl e
      | Resolved v \<Rightarrow>
          (case finish_group p ce rest ctx of
             Inl e \<Rightarrow> Inl e
           | Inr (rs, ctx') \<Rightarrow> Inr ((i, v) # rs, ctx'))
      | CacheHit cached \<Rightarrow>
          (case finish_group p ce rest ctx of
             Inl e \<Rightarrow> Inl e
           | Inr (rs, ctx') \<Rightarrow> Inr ((i, cosineSimilarity ce cached) # rs, ctx'))
      | CacheMiss text hash \<Rightarrow>
          (case computeEmbedding p text of
             (Inl e, calls) \<Rightarrow> Inl e
           | (Inr embedding, calls) \<Rightarrow>
               (case finish_group p ce rest
                       (ctx\<lparr> lru_cache := lru_set (lru_maxSize ctx) hash embedding (lru_cache ctx),
                            pipelineCalls := pipelineCalls ctx @ calls \<rparr>) of
                  Inl e \<Rightarrow> Inl e
                | Inr (rs, ctx') \<Rightarrow> Inr ((i, cosineSimilarity ce embedding) # rs, ctx'))))"

definition relevance_group ::
  "pipeline \<Rightarrow> item list \<Rightarrow> embedding_context
     \<Rightarrow> error + ((string \<times> real) list \<times> embedding_context)" where
  "relevance_group p batch ctx =
     (case start_group batch ctx of
        (started, ctx') \<Rightarrow>
          finish_group p (case contextEmbedding ctx of None \<Rightarrow> [] | Some ce \<Rightarrow> ce) started ctx')"

text \<open>
  The loop of \<^verbatim>\<open>batchRelevanceScores\<close>:
  \<^verbatim>\<open>for (let i = 0; i < items.length; i += concurrency)\<close>, here over the items that are
  left. With \<^verbatim>\<open>concurrency\<close> 0 the index never advances and the loop does not end: the
  result \<open>None\<close> is a call that never returns. The progress callback has no part in
  the result and is left out.
\<close>

partial_function (option) batch_loop ::
  "pipeline \<Rightarrow> nat \<Rightarrow> item list \<Rightarrow> (string, real) jsmap \<Rightarrow> embedding_context
     \<Rightarrow> (error + ((string, real) jsmap \<times> embedding_context)) option" where
  "batch_loop p concurrency items scores ctx =
     (if items = [] then Some (Inr (scores, ctx))
      else (let r = relevance_group p (take concurrency items) ctx
            in if isl r then Some (Inl (projl r))
               else batch_loop p concurrency (drop concurrency items)
                      (fold (\<lambda>(i, score) m. jsmap_set i score m) (fst (projr r)) scores)
                      (snd (projr r))))"

definition batchRelevanceScores ::
  "pipeline \<Rightarrow> item list \<Rightarrow> nat \<Rightarrow> embedding_context
     \<Rightarrow> (error + ((string, real) jsmap \<times> embedding_context)) option" where
  "batchRelevanceScores p items concurrency ctx = batch_loop p concurrency items [] ctx"

section \<open>Filter pipeline (filterItems of the filter module)\<close>

definition DEFAULT_RELEVANCE_THRESHOLD :: real where
  "DEFAULT_RELEVANCE_THRESHOLD = 30 / 100"

definition DEFAULT_NOVELTY_THRESHOLD :: real where
  "DEFAULT_NOVELTY_THRESHOLD = 5 / 10"

text \<open>The metadata \<^verbatim>\<open>filterItems\<close> hands to \<^verbatim>\<open>markSeen\<close>: \<^verbatim>\<open>{ title, source }\<close>.\<close>

record seen_metadata =
  seen_title :: string
  seen_source :: string

text \<open>
  The options of \<^verbatim>\<open>filterItems\<close>; \<open>None\<close> is an option the caller left undefined. The
  novelty tracker and the embedding context, which the run changes, are arguments of
  their own; \<^verbatim>\<open>verbose\<close> only switches logging and is left out.
\<close>

record filter_options =
  relevanceThreshold :: "real option"
  noveltyThreshold :: "real option"
  concurrency :: "nat option"
  userKeywords :: "string \<Rightarrow> string list option"
  existingIds :: "string list"

text \<open>
  What a run is given from outside: the shared embedding pipeline, the storage adapter
  behind the novelty tracker, the clock, the engine behind \<^verbatim>\<open>Math.exp\<close> and \<^verbatim>\<open>Math.log\<close>, and
  the two text-mining functions of the context document,
  \<^verbatim>\<open>parseContextForSignalKeywords\<close> and \<^verbatim>\<open>extractContextKeywords\<close>, which are taken as
  they are. \<open>clock k\<close> is the k-th reading of the clock in the run.
\<close>

record 's environment =
  env_pipeline :: pipeline
  env_adapter :: "('s, seen_metadata) storage_adapter"
  env_clock :: "nat \<Rightarrow> timestamp"
  env_engine :: engine
  env_parseContextForSignalKeywords :: "string \<Rightarrow> string \<Rightarrow> keyword_lists option"
  env_extractContextKeywords :: "string \<Rightarrow> string list"

text \<open>The item that comes out of the run: the scored item, its score again, and a label.\<close>

record signal = scored_item +
  score :: number
  recencyLabel :: string

text \<open>
  The loop \<^verbatim>\<open>for (const item of validItems)\<close>. The item at position \<open>k\<close> reads the clock
  at most three times: in \<^verbatim>\<open>getNoveltyScore\<close>, in \<^verbatim>\<open>markSeen\<close> and for \<^verbatim>\<open>filtered_at\<close>.
  The per-source statistics of the loop are only logged and are left out. The relevance
  scores and the two thresholds are real numbers; the products with 100 are rounded as
  the source's are.
\<close>

fun filter_loop ::
  "(nat \<Rightarrow> timestamp) \<Rightarrow> real \<Rightarrow> real \<Rightarrow> (string, real) jsmap \<Rightarrow> nat \<Rightarrow> item list
     \<Rightarrow> ('s, seen_metadata) tracker option \<Rightarrow> filter_context
     \<Rightarrow> item list \<times> ('s, seen_metadata) tracker option \<times> filter_context" where
  "filter_loop clock relT novT relevanceScores k [] noveltyTracker filterCtx =
     ([], noveltyTracker, filterCtx)"
| "filter_loop clock relT novT relevanceScores k (it # its) noveltyTracker filterCtx =
     (let rel = the_default 0 (jsmap_get relevanceScores (item_id it));
          novelty = (case noveltyTracker of
                       Some t \<Rightarrow> getNoveltyScore t (clock (3 * k)) (item_id it)
                     | None \<Rightarrow> Fin (fc_getNoveltyScore filterCtx (item_id it)));
          noveltyTracker' =
            (case noveltyTracker of
               Some t \<Rightarrow> Some (markSeen t (clock (3 * k + 1)) (item_id it)
                                 (plain \<lparr> seen_title = title it, seen_source = source it \<rparr>))
             | None \<Rightarrow> None);
          filterCtx' = fc_markSeen filterCtx (item_id it);
          passesRelevance = (rel \<ge> relT);
          passesNovelty = (case noveltyTracker of
                             Some t \<Rightarrow> js_ge novelty (Fin novT)
                           | None \<Rightarrow> js_less (Fin 0) novelty)
      in case filter_loop clock relT novT relevanceScores (Suc k) its noveltyTracker' filterCtx' of
           (filteredItems, noveltyTracker'', filterCtx'') \<Rightarrow>
             (if passesRelevance \<and> passesNovelty
              then (let cls = classifySignalType filterCtx' it;
                        relevanceConfidence = getConfidence rel;
                        why = generateReason (ctype cls) it filterCtx'
                    in it\<lparr> item_filter_result :=
                               Some \<lparr> signal_type = ctype cls,
                                      confidence = Some relevanceConfidence,
                                      keyword_confidence = Some (keywordConfidence cls),
                                      matched_keyword = matchedKeyword cls,
                                      is_watched = isWatched cls,
                                      reason = why,
                                      relevance_score =
                                        Some (Math_round (js_mul (Fin rel) (Fin 100))),
                                      novelty_score =
                                        Some (Math_round (js_mul novelty (Fin 100))) \<rparr>,
                            filtered_at := Some (clock (3 * k + 2)) \<rparr>
                         # filteredItems)
              else filteredItems,
              noveltyTracker'', filterCtx''))"

text \<open>
  \<^verbatim>\<open>validItems\<close>: an entry of the array that is not an object is \<open>None\<close>, and an item
  without an id has the empty id.
\<close>

definition valid_items :: "item option list \<Rightarrow> item list" where
  "valid_items items =
     List.map_filter (\<lambda>x. case x of None \<Rightarrow> None
                          | Some it \<Rightarrow> if item_id it = [] then None else Some it) items"

text \<open>
  The last step of \<^verbatim>\<open>filterItems\<close>: each scored item gets its score again and the label
  of its timestamp. \<^verbatim>\<open>getRelevantTimestamp\<close> is called once more here.
\<close>

fun label_all :: "(nat \<Rightarrow> timestamp) \<Rightarrow> nat \<Rightarrow> scored_item list \<Rightarrow> error + signal list" where
  "label_all clock k [] = Inr []"
| "label_all clock k (s # ss) =
     (case getRelevantTimestamp (scored s) Map.empty of
        Inl e \<Rightarrow> Inl e
      | Inr ts \<Rightarrow>
          (case label_all clock (Suc k) ss of
             Inl e \<Rightarrow> Inl e
           | Inr ls \<Rightarrow>
               Inr (scored_item.extend s
                      \<lparr> score = signalScore s,
                        recencyLabel = getRecencyLabel (clock k) ts \<rparr> # ls)))"

text \<open>
  The steps of \<^verbatim>\<open>filterItems\<close> after the flush: \<^verbatim>\<open>scoreAndSortSignals\<close> with
  \<^verbatim>\<open>{ sortBy: 'score' }\<close>, then the labels. \<open>n\<close> is the number of clock readings taken
  before.
\<close>

definition score_and_label ::
  "engine \<Rightarrow> (nat \<Rightarrow> timestamp) \<Rightarrow> nat \<Rightarrow> item list \<Rightarrow> error + signal list" where
  "score_and_label eng clock n filteredItems =
     (case scoreAndSortSignals eng (\<lambda>i. clock (n + i)) filteredItems
             (default_scoring_options \<lparr> sortBy := Some ''score'' \<rparr>) of
        Inl e \<Rightarrow> Inl e
      | Inr scoredItems \<Rightarrow> label_all clock (n + length filteredItems) scoredItems)"

text \<open>
  \<^verbatim>\<open>filterItems(items, context, options)\<close>. \<open>items\<close> is \<open>None\<close> when the argument is
  missing, \<open>context\<close> is \<open>None\<close> when it is missing or not a string. The result is the
  list the function returns together with the embedding context and the tracker as the
  run leaves them, an error for a run that throws, and \<open>None\<close> for a run that never
  returns.
\<close>

definition filterItems ::
  "'s environment \<Rightarrow> item option list option \<Rightarrow> string option \<Rightarrow> filter_options
     \<Rightarrow> embedding_context option \<Rightarrow> ('s, seen_metadata) tracker option
     \<Rightarrow> (error + (signal list \<times> embedding_context option
                    \<times> ('s, seen_metadata) tracker option)) option" where
  "filterItems env items context options embeddingContext noveltyTracker =
     (let relT = the_default DEFAULT_RELEVANCE_THRESHOLD (relevanceThreshold options);
          novT = the_default DEFAULT_NOVELTY_THRESHOLD (noveltyThreshold options);
          conc = the_default 10 (concurrency options)
      in if (case items of None \<Rightarrow> True | Some l \<Rightarrow> length l = 0)
           then Some (Inr ([], embeddingContext, noveltyTracker))
         else if (case context of None \<Rightarrow> True | Some c \<Rightarrow> c = [])
           then Some (Inl ContextMustBeNonEmptyString)
         else
          (let validItems = valid_items (the_default [] items);
               ctxText = the_default [] context
           in if length validItems = 0
                then Some (Inr ([], embeddingContext, noveltyTracker))
              else
               (let embeddingCtx = (case embeddingContext of
                                      Some e \<Rightarrow> e
                                    | None \<Rightarrow> EmbeddingContext (Some 1000))
                in case setContext (env_pipeline env) ctxText embeddingCtx of
                     Inl e \<Rightarrow> Some (Inl e)
                   | Inr (ce, embeddingCtx1) \<Rightarrow>
                      (let filterCtx =
                             setContextKeywords (env_extractContextKeywords env ctxText)
                               (setSignalKeywords
                                  (env_parseContextForSignalKeywords env ctxText)
                                  (userKeywords options)
                                  (FilterContext (existingIds options)))
                       in case (case noveltyTracker of
                                  None \<Rightarrow> Inr None
                                | Some t \<Rightarrow>
                                    (case loadBatch (env_adapter env) (map item_id validItems) t of
                                       Inl e \<Rightarrow> Inl e
                                     | Inr t' \<Rightarrow> Inr (Some t'))) of
                            Inl e \<Rightarrow> Some (Inl e)
                          | Inr tracker1 \<Rightarrow>
                             (case batchRelevanceScores (env_pipeline env) validItems conc
                                     embeddingCtx1 of
                                None \<Rightarrow> None
                              | Some (Inl e) \<Rightarrow> Some (Inl e)
                              | Some (Inr (relevanceScores, embeddingCtx2)) \<Rightarrow>
                                 (case filter_loop (env_clock env) relT novT relevanceScores 0
                                         validItems tracker1 filterCtx of
                                    (filteredItems, tracker2, filterCtx2) \<Rightarrow>
                                     (case (case tracker2 of
                                              None \<Rightarrow> Inr None
                                            | Some t \<Rightarrow>
                                                (case flush (env_adapter env) t of
                                                   Inl e \<Rightarrow> Inl e
                                                 | Inr t' \<Rightarrow> Inr (Some t'))) of
                                        Inl e \<Rightarrow> Some (Inl e)
                                      | Inr tracker3 \<Rightarrow>
                                         (case score_and_label (env_engine env) (env_clock env)
                                                 (3 * length validItems) filteredItems of
                                            Inl e \<Rightarrow> Some (Inl e)
                                          | Inr itemsWithLabels \<Rightarrow>
                                              Some (Inr (itemsWithLabels, Some embeddingCtx2,
                                                         tracker3))))))))))"

section \<open>Example data\<close>

text \<open>An item with a title and a description and nothing else, and a filter context as
  \<^verbatim>\<open>setSignalKeywords\<close> builds it from the default keywords, the user's exact keyword
  "Rust" for the category trend and the user's global keyword "WebGPU".\<close>

definition example_item :: "string \<Rightarrow> string \<Rightarrow> string \<Rightarrow> item" where
  "example_item i t d = \<lparr> item_id = i, source = ''github'', title = t, description = d,
     metadata_count = (\<lambda>_. 0), metadata_time = (\<lambda>_. None), fetched_at = None,
     item_timestamp = None, item_date = None, item_filter_result = None, filtered_at = None \<rparr>"

definition example_filter_context :: filter_context where
  "example_filter_context =
     setSignalKeywords (map_of DEFAULT_SIGNAL_KEYWORDS)
       [''trend'' \<mapsto> [''Rust''], ''global'' \<mapsto> [''WebGPU'']] (FilterContext [])"

text \<open>Scoring options that give each of the three sub-scores the weight 1.\<close>

definition unit_weights :: scoring_options where
  "unit_weights = \<lparr> relevanceWeight = Some (Fin 1), recencyWeight = Some (Fin 1),
                     engagementWeight = Some (Fin 1),
                     engagementBaselines = Map.empty, sortBy = None \<rparr>"

text \<open>
  Two embedding pipelines: one that gives every text the same unit vector, and one that
  does so except on the text \<open>''bad''\<close>, where it throws.
\<close>

definition constant_pipeline :: pipeline where
  "constant_pipeline s = Inr [1, 0]"

definition failing_pipeline :: pipeline where
  "failing_pipeline s = (if s = ''bad'' then Inl (ProviderFailed ''boom'') else Inr [1, 0])"

text \<open>
  The embedding context after \<^verbatim>\<open>new EmbeddingContext()\<close> and
  \<^verbatim>\<open>setContext('Rust tools')\<close> with either pipeline.
\<close>

definition example_embedding_context :: embedding_context where
  "example_embedding_context =
     \<lparr> contextEmbedding = Some [1, 0], lru_maxSize = 1000,
       lru_cache = [(''-86y2wx'', [1, 0])], pipelineCalls = [''Rust tools''] \<rparr>"

text \<open>
  A run environment with the constant pipeline, the memory backend, a clock that
  advances one second per reading, the engine that rounds to the nearest double, and a context document in which the text mining
  finds nothing beyond the default keywords; and the options object \<^verbatim>\<open>{}\<close>.
\<close>

definition example_environment :: "(string, seen_metadata novelty_record) jsmap environment" where
  "example_environment =
     \<lparr> env_pipeline = constant_pipeline,
       env_adapter = MemoryStorageAdapter,
       env_clock = (\<lambda>k. 1000 * int k),
       env_engine = nearest_engine,
       env_parseContextForSignalKeywords = (\<lambda>c. map_of DEFAULT_SIGNAL_KEYWORDS),
       env_extractContextKeywords = (\<lambda>c. []) \<rparr>"

definition default_filter_options :: filter_options where
  "default_filter_options =
     \<lparr> relevanceThreshold = None, noveltyThreshold = None, concurrency = None,
       userKeywords = (\<lambda>k. None), existingIds = [] \<rparr>"

text \<open>
  A fresh novelty tracker on the memory backend, and the record it holds for the item
  \<open>''1''\<close> of source github with an empty title after one sighting at the clock reading 1000.
\<close>

definition example_tracker :: "((string, seen_metadata novelty_record) jsmap, seen_metadata) tracker" where
  "example_tracker = NoveltyTracker [] None None"

definition example_seen_record :: "seen_metadata novelty_record" where
  "example_seen_record =
     \<lparr> itemId = ''1'', firstSeen = Some (Instant 1000), lastSeen = Some (Instant 1000),
       seenCount = 1,
       meta = \<lparr> seen_title = [], seen_source = ''github'' \<rparr> \<rparr>"


section \<open>Invariants used in the proofs\<close>

text \<open>
  Every pending record is the record the cache holds for the same id, and no id is
  pending twice.
\<close>

definition pending_ok :: "('s, 'm) tracker \<Rightarrow> bool" where
  "pending_ok t \<longleftrightarrow> distinct (jsmap_keys (pendingUpdates t))
      \<and> (\<forall>k r. jsmap_get (pendingUpdates t) k = Some r \<longrightarrow> jsmap_get (cache t) k = Some r)"

text \<open>The embedding pipeline throws for no text.\<close>

definition pipeline_total :: "pipeline \<Rightarrow> bool" where
  "pipeline_total p \<longleftrightarrow> (\<forall>s. \<exists>v. p s = Inr v)"

text \<open>None of the calls started in a group was rejected at once.\<close>

definition no_rejected :: "(string \<times> started) list \<Rightarrow> bool" where
  "no_rejected xs \<longleftrightarrow> (\<forall>x \<in> set xs. \<forall>e. snd x \<noteq> Rejected e)"

text \<open>
  The \<^verbatim>\<open>markSeen\<close> calls that the loop of \<^verbatim>\<open>filterItems\<close> makes on the novelty tracker
  for a list of items, the first of which is at position \<open>k\<close>.
\<close>

fun seen_calls ::
  "(nat \<Rightarrow> timestamp) \<Rightarrow> nat \<Rightarrow> item list \<Rightarrow> (timestamp \<times> string \<times> seen_metadata metadata) list" where
  "seen_calls clock k [] = []"
| "seen_calls clock k (it # its) =
     (clock (3 * k + 1), item_id it, plain \<lparr> seen_title = title it, seen_source = source it \<rparr>)
       # seen_calls clock (Suc k) its"

text \<open>\<^verbatim>\<open>getRelevantTimestamp(item)\<close> returns: it throws neither of its two errors.\<close>

definition timestamp_ok :: "item \<Rightarrow> bool" where
  "timestamp_ok it =
     (case getRelevantTimestamp it Map.empty of Inr ts \<Rightarrow> True | Inl e \<Rightarrow> False)"

section \<open>Properties of the novelty tracker\<close>

subsection \<open>Maps\<close>

lemma jsmap_get_set: "jsmap_get (jsmap_set k v m) k' = (if k' = k then Some v else jsmap_get m k')"
  by (induction m) (auto simp: jsmap_get_def)

lemma jsmap_keys_set_list:
  "jsmap_keys (jsmap_set k v m) =
     (if k \<in> set (jsmap_keys m) then jsmap_keys m else jsmap_keys m @ [k])"
  by (induction k v m rule: jsmap_set.induct) (auto simp: jsmap_keys_def)

lemma jsmap_keys_set: "set (jsmap_keys (jsmap_set k v m)) = insert k (set (jsmap_keys m))"
  by (auto simp: jsmap_keys_set_list)

lemma jsmap_has_keys: "jsmap_has m k \<longleftrightarrow> k \<in> set (jsmap_keys m)"
  by (simp add: jsmap_has_def jsmap_get_def jsmap_keys_def map_of_eq_None_iff)

lemma jsmap_get_in_set: "jsmap_get m k = Some v \<Longrightarrow> (k, v) \<in> set m"
  by (simp add: jsmap_get_def map_of_SomeD)

lemma jsmap_set_distinct: "distinct (jsmap_keys m) \<Longrightarrow> distinct (jsmap_keys (jsmap_set k v m))"
  by (simp add: jsmap_keys_set_list)

lemma jsmap_set_nonempty: "jsmap_set k v m \<noteq> []"
  by (induction k v m rule: jsmap_set.induct) auto

lemma jsmap_get_distinct: "distinct (jsmap_keys m) \<Longrightarrow> (k, v) \<in> set m \<Longrightarrow> jsmap_get m k = Some v"
  by (simp add: jsmap_keys_def jsmap_get_def)

subsection \<open>What markSeen does to the cache and to the pending set\<close>

lemma markSeen_cache_other:
  "k \<noteq> i \<Longrightarrow> jsmap_get (cache (markSeen t now i md)) k = jsmap_get (cache t) k"
  by (simp add: markSeen_def jsmap_get_set Let_def split: option.splits)

lemma markSeen_cache_new:
  "jsmap_get (cache t) i = None \<Longrightarrow>
   jsmap_get (cache (markSeen t now i md)) i = Some (new_record now i md)"
  by (simp add: markSeen_def jsmap_get_set Let_def)

lemma markSeen_cache_existing:
  "jsmap_get (cache t) i = Some r \<Longrightarrow>
   jsmap_get (cache (markSeen t now i md)) i =
     Some (r\<lparr> lastSeen := Some (Instant now), seenCount := next_count (seenCount r) \<rparr>)"
  by (simp add: markSeen_def jsmap_get_set Let_def)

lemma next_count_exact: "0 < n \<Longrightarrow> n < 2 ^ 53 \<Longrightarrow> next_count n = n + 1"
  by (simp add: next_count_def)


lemma markSeen_calls_append:
  "markSeen_calls t (cs @ ds) = markSeen_calls (markSeen_calls t cs) ds"
  by (induction cs arbitrary: t) auto

lemma markSeen_calls_other:
  "calls_on k cs = [] \<Longrightarrow> jsmap_get (cache (markSeen_calls t cs)) k = jsmap_get (cache t) k"
proof (induction cs arbitrary: t)
  case Nil
  then show ?case by simp
next
  case (Cons c cs)
  obtain now i md where c: "c = (now, i, md)" by (cases c) auto
  from Cons.prems c have "i \<noteq> k" and "calls_on k cs = []"
    by (auto simp: calls_on_def split: if_splits)
  then show ?case using Cons.IH c by (simp add: markSeen_cache_other)
qed

lemma markSeen_calls_kept:
  assumes "jsmap_get (cache t) k = Some r"
  shows "\<exists>r'. jsmap_get (cache (markSeen_calls t cs)) k = Some r'
           \<and> itemId r' = itemId r \<and> meta r' = meta r \<and> firstSeen r' = firstSeen r"
  using assms
proof (induction cs arbitrary: t r)
  case Nil
  then show ?case by simp
next
  case (Cons c cs)
  obtain now i md where c: "c = (now, i, md)" by (cases c) auto
  show ?case
  proof (cases "i = k")
    case True
    let ?r1 = "r\<lparr> lastSeen := Some (Instant now), seenCount := next_count (seenCount r) \<rparr>"
    have g: "jsmap_get (cache (markSeen t now i md)) k = Some ?r1"
      using markSeen_cache_existing [OF Cons.prems(1)[folded True], of now md] True by simp
    from Cons.IH [OF g] show ?thesis using c by simp
  next
    case False
    have g: "jsmap_get (cache (markSeen t now i md)) k = Some r"
      using Cons.prems(1) False by (simp add: markSeen_cache_other)
    from Cons.IH [OF g] show ?thesis using c by simp
  qed
qed

lemma markSeen_calls_existing:
  assumes "jsmap_get (cache t) k = Some r" and "0 < seenCount r"
      and "seenCount r + length (calls_on k cs) \<le> 2 ^ 53"
  shows "\<exists>r'. jsmap_get (cache (markSeen_calls t cs)) k = Some r'
           \<and> itemId r' = itemId r \<and> meta r' = meta r
           \<and> firstSeen r' = firstSeen r
           \<and> seenCount r' = seenCount r + length (calls_on k cs)
           \<and> lastSeen r' = (if calls_on k cs = [] then lastSeen r
                              else Some (Instant (fst (last (calls_on k cs)))))"
  using assms
proof (induction cs arbitrary: t r)
  case Nil
  then show ?case by (simp add: calls_on_def)
next
  case (Cons c cs)
  obtain now i md where c: "c = (now, i, md)" by (cases c) auto
  show ?case
  proof (cases "i = k")
    case True
    let ?r1 = "r\<lparr> lastSeen := Some (Instant now), seenCount := seenCount r + 1 \<rparr>"
    have len: "length (calls_on k (c # cs)) = Suc (length (calls_on k cs))"
      using c True by (simp add: calls_on_def)
    have small: "seenCount r < 2 ^ 53" using Cons.prems(3) len by simp
    have nc: "next_count (seenCount r) = seenCount r + 1"
      using Cons.prems(2) small by (rule next_count_exact)
    have g: "jsmap_get (cache (markSeen t now i md)) k = Some ?r1"
      using markSeen_cache_existing [OF Cons.prems(1)[folded True], of now md] True nc
      by simp
    have pos: "0 < seenCount ?r1" by simp
    have bound: "seenCount ?r1 + length (calls_on k cs) \<le> 2 ^ 53"
      using Cons.prems(3) len by simp
    from Cons.IH [OF g pos bound] obtain r' where
      r': "jsmap_get (cache (markSeen_calls (markSeen t now i md) cs)) k = Some r'"
        "itemId r' = itemId ?r1" "meta r' = meta ?r1" "firstSeen r' = firstSeen ?r1"
        "seenCount r' = seenCount ?r1 + length (calls_on k cs)"
        "lastSeen r' = (if calls_on k cs = [] then lastSeen ?r1
                          else Some (Instant (fst (last (calls_on k cs)))))"
      by blast
    then show ?thesis using c True
      by (auto simp: calls_on_def)
  next
    case False
    have len: "calls_on k (c # cs) = calls_on k cs"
      using c False by (simp add: calls_on_def)
    have g: "jsmap_get (cache (markSeen t now i md)) k = Some r"
      using Cons.prems(1) False by (simp add: markSeen_cache_other)
    from Cons.IH [OF g Cons.prems(2) Cons.prems(3) [unfolded len]] show ?thesis using c False
      by (auto simp: calls_on_def)
  qed
qed

lemma markSeen_pending_get:
  "jsmap_get (pendingUpdates (markSeen t now i md)) k =
     (if k = i then jsmap_get (cache (markSeen t now i md)) i else jsmap_get (pendingUpdates t) k)"
  by (simp add: markSeen_def jsmap_get_set Let_def split: option.splits)

lemma markSeen_pending_keys:
  "set (jsmap_keys (pendingUpdates (markSeen t now i md))) = insert i (set (jsmap_keys (pendingUpdates t)))"
  by (simp add: markSeen_def jsmap_keys_set Let_def split: option.splits)

lemma markSeen_pending_distinct:
  "distinct (jsmap_keys (pendingUpdates t)) \<Longrightarrow> distinct (jsmap_keys (pendingUpdates (markSeen t now i md)))"
  by (simp add: markSeen_def jsmap_set_distinct Let_def split: option.splits)

lemma markSeen_frame:
  "storage (markSeen t now i md) = storage t \<and> saveCalls (markSeen t now i md) = saveCalls t
   \<and> halfLifeDays (markSeen t now i md) = halfLifeDays t \<and> minScore (markSeen t now i md) = minScore t"
  by (simp add: markSeen_def Let_def split: option.splits)

lemma pending_ok_markSeen: "pending_ok t \<Longrightarrow> pending_ok (markSeen t now i md)"
  unfolding pending_ok_def
  by (auto simp: markSeen_pending_distinct markSeen_pending_get markSeen_cache_other)

lemma pending_ok_calls: "pending_ok t \<Longrightarrow> pending_ok (markSeen_calls t cs)"
  by (induction cs arbitrary: t) (auto simp: pending_ok_markSeen)

lemma pending_keys_calls:
  "set (jsmap_keys (pendingUpdates (markSeen_calls t cs)))
     = set (jsmap_keys (pendingUpdates t)) \<union> set (map (\<lambda>c. fst (snd c)) cs)"
proof (induction cs arbitrary: t)
  case Nil
  then show ?case by simp
next
  case (Cons c cs)
  obtain now i md where c: "c = (now, i, md)" by (cases c) auto
  show ?case unfolding c by (simp add: Cons.IH markSeen_pending_keys)
qed

lemma pending_in_cache:
  "pending_ok t \<Longrightarrow> (k, r) \<in> set (pendingUpdates t) \<Longrightarrow> jsmap_get (cache t) k = Some r"
  unfolding pending_ok_def using jsmap_get_distinct by fastforce

lemma flush_empty: "pendingUpdates t = [] \<Longrightarrow> flush ad t = Inr t"
  by (simp add: flush_def)

lemma flush_nonempty:
  "pendingUpdates t \<noteq> [] \<Longrightarrow> save ad (jsmap_values (pendingUpdates t)) (storage t) = Inr s' \<Longrightarrow>
   flush ad t = Inr (t\<lparr> storage := s', pendingUpdates := [],
                        saveCalls := saveCalls t @ [jsmap_values (pendingUpdates t)] \<rparr>)"
  by (simp add: flush_def Let_def)

subsection \<open>Sightings\<close>

lemma markSeen_calls_created:
  assumes fresh: "jsmap_get (cache t) k = None"
      and mine: "calls_on k cs \<noteq> []"
  shows "\<exists>r. jsmap_get (cache (markSeen_calls t cs)) k = Some r
            \<and> firstSeen r = firstSeen (new_record (fst (hd (calls_on k cs))) k
                                          (snd (snd (hd (calls_on k cs)))))"
proof -
  from mine have "\<exists>x \<in> set cs. fst (snd x) = k"
    by (auto simp: calls_on_def filter_empty_conv)
  then obtain pre x post where split: "cs = pre @ x # post" "fst (snd x) = k"
      "\<forall>y \<in> set pre. fst (snd y) \<noteq> k"
    using split_list_first_prop [of cs "\<lambda>x. fst (snd x) = k"] by blast
  obtain now0 md0 where x: "x = (now0, k, md0)" using split(2) by (cases x) auto
  have pre_none: "calls_on k pre = []" using split(3) by (auto simp: calls_on_def filter_empty_conv)
  define t1 where "t1 = markSeen_calls t pre"
  have "jsmap_get (cache t1) k = None" unfolding t1_def using fresh pre_none by (simp add: markSeen_calls_other)
  then have g: "jsmap_get (cache (markSeen t1 now0 k md0)) k = Some (new_record now0 k md0)"
    by (rule markSeen_cache_new)
  have run: "markSeen_calls t cs = markSeen_calls (markSeen t1 now0 k md0) post"
    unfolding t1_def using split(1) x by (simp add: markSeen_calls_append)
  have mine_eq: "calls_on k cs = (now0, k, md0) # calls_on k post"
    using split(1) x pre_none by (simp add: calls_on_def)
  from markSeen_calls_kept [OF g, of post] obtain r where
    "jsmap_get (cache (markSeen_calls t cs)) k = Some r"
    "firstSeen r = firstSeen (new_record now0 k md0)"
    unfolding run [symmetric] by blast
  then show ?thesis unfolding mine_eq by simp
qed

lemma markSeen_calls_fresh:
  assumes fresh: "jsmap_get (cache t) k = None"
      and mine: "calls_on k cs \<noteq> []"
      and md: "own_firstSeen (snd (snd (hd (calls_on k cs)))) = None"
              "own_lastSeen (snd (snd (hd (calls_on k cs)))) = None"
              "own_seenCount (snd (snd (hd (calls_on k cs)))) = None"
      and few: "length (calls_on k cs) < 2 ^ 53"
  shows "\<exists>r. jsmap_get (cache (markSeen_calls t cs)) k = Some r
            \<and> firstSeen r = Some (Instant (fst (hd (calls_on k cs))))
            \<and> lastSeen r = Some (Instant (fst (last (calls_on k cs))))
            \<and> seenCount r = length (calls_on k cs)
            \<and> (\<forall>now md. \<exists>r'. jsmap_get (cache (markSeen (markSeen_calls t cs) now k md)) k = Some r'
                  \<and> firstSeen r' = firstSeen r \<and> lastSeen r' = Some (Instant now)
                  \<and> seenCount r' = seenCount r + 1)"
proof -
  from mine have "\<exists>x \<in> set cs. fst (snd x) = k"
    by (auto simp: calls_on_def filter_empty_conv)
  then obtain pre x post where split: "cs = pre @ x # post" "fst (snd x) = k"
      "\<forall>y \<in> set pre. fst (snd y) \<noteq> k"
    using split_list_first_prop [of cs "\<lambda>x. fst (snd x) = k"] by blast
  obtain now0 md0 where x: "x = (now0, k, md0)" using split(2) by (cases x) auto
  have pre_none: "calls_on k pre = []" using split(3) by (auto simp: calls_on_def filter_empty_conv)
  have mine_eq: "calls_on k cs = (now0, k, md0) # calls_on k post"
    using split(1) x pre_none by (simp add: calls_on_def)
  from md have md0: "own_firstSeen md0 = None" "own_lastSeen md0 = None" "own_seenCount md0 = None"
    unfolding mine_eq by simp_all
  define t1 where "t1 = markSeen_calls t pre"
  define r0 where "r0 = new_record now0 k md0"
  have r0: "firstSeen r0 = Some (Instant now0)" "lastSeen r0 = Some (Instant now0)" "seenCount r0 = 1"
    unfolding r0_def by (simp_all add: new_record_def md0)
  have "jsmap_get (cache t1) k = None" unfolding t1_def using fresh pre_none by (simp add: markSeen_calls_other)
  then have g: "jsmap_get (cache (markSeen t1 now0 k md0)) k = Some r0"
    unfolding r0_def by (rule markSeen_cache_new)
  have pos: "0 < seenCount r0" by (simp add: r0)
  have bound: "seenCount r0 + length (calls_on k post) \<le> 2 ^ 53"
    using few unfolding mine_eq by (simp add: r0)
  have run: "markSeen_calls t cs = markSeen_calls (markSeen t1 now0 k md0) post"
    unfolding t1_def using split(1) x by (simp add: markSeen_calls_append)
  from markSeen_calls_existing [OF g pos bound] obtain r where
    r: "jsmap_get (cache (markSeen_calls t cs)) k = Some r"
       "firstSeen r = firstSeen r0" "seenCount r = seenCount r0 + length (calls_on k post)"
       "lastSeen r = (if calls_on k post = [] then lastSeen r0
                       else Some (Instant (fst (last (calls_on k post)))))"
    unfolding run [symmetric] by blast
  have cnt: "seenCount r = length (calls_on k cs)" using r(3) unfolding mine_eq by (simp add: r0)
  have nc: "next_count (seenCount r) = seenCount r + 1"
    by (rule next_count_exact) (use cnt few mine in simp_all)
  have step: "\<exists>r'. jsmap_get (cache (markSeen (markSeen_calls t cs) now k md)) k = Some r'
                  \<and> firstSeen r' = firstSeen r \<and> lastSeen r' = Some (Instant now)
                  \<and> seenCount r' = seenCount r + 1" for now md
    using markSeen_cache_existing [OF r(1), of now md] nc by simp
  have main: "jsmap_get (cache (markSeen_calls t cs)) k = Some r
            \<and> firstSeen r = Some (Instant (fst (hd (calls_on k cs))))
            \<and> lastSeen r = Some (Instant (fst (last (calls_on k cs))))
            \<and> seenCount r = length (calls_on k cs)"
    using r(1) r(2) r(4) cnt unfolding mine_eq by (simp add: r0)
  show ?thesis
    by (rule exI [of _ r]) (use main step in blast)
qed

text \<open>
  C5, as the claim states it, fails for a \<^verbatim>\<open>markSeen\<close> call whose metadata has a
  property named like one of the tracker's own fields: the metadata is spread into the
  new record last and replaces the field. With the metadata \<^verbatim>\<open>{ seenCount: 10 }\<close> on the
  first call, two calls give the count 11 and not 2; with \<^verbatim>\<open>{ seenCount: 0 }\<close> the
  record starts at 0 and the second call, which reads a falsy count as 1, gives 2, a
  step of 2.
\<close>

theorem metadata_replaces_tracker_fields:
  "map_option seenCount
     (jsmap_get (cache (markSeen_calls (NoveltyTracker () None None :: (unit, unit) tracker)
        [(1000, ''a'', (plain ())\<lparr> own_seenCount := Some 10 \<rparr>), (2000, ''a'', plain ())])) ''a'')
     = Some 11
   \<and> map_option seenCount
     (jsmap_get (cache (markSeen_calls (NoveltyTracker () None None :: (unit, unit) tracker)
        [(1000, ''a'', (plain ())\<lparr> own_seenCount := Some 0 \<rparr>)])) ''a'')
     = Some 0
   \<and> map_option seenCount
     (jsmap_get (cache (markSeen_calls (NoveltyTracker () None None :: (unit, unit) tracker)
        [(1000, ''a'', (plain ())\<lparr> own_seenCount := Some 0 \<rparr>), (2000, ''a'', plain ())])) ''a'')
     = Some 2"
  by (simp add: NoveltyTracker_def markSeen_def new_record_def plain_def next_count_def
        jsmap_get_def Let_def)

text \<open>
  C5, amended. Whatever the metadata: once the cache holds a record for an id, no
  sequence of \<^verbatim>\<open>markSeen\<close> calls changes its \<open>firstSeen\<close>; and one \<^verbatim>\<open>markSeen\<close> on the id
  of a record sets \<open>lastSeen\<close> to the clock reading of the call and adds exactly 1 to a
  \<open>seenCount\<close> that is positive and below \<open>2^53\<close>. For a tracker that holds no record for
  the id \<open>k\<close> and a sequence of calls, on any ids, with fewer than \<open>2^53\<close> of them on \<open>k\<close>
  and the first of these with metadata that has no property \<^verbatim>\<open>firstSeen\<close>, \<^verbatim>\<open>lastSeen\<close>
  or \<^verbatim>\<open>seenCount\<close>: the record of \<open>k\<close> has as \<open>firstSeen\<close> the clock reading of the first
  call on \<open>k\<close>, as \<open>lastSeen\<close> the reading of the last call on \<open>k\<close>, and as \<open>seenCount\<close>
  the number of calls on \<open>k\<close> (2 after two calls).
\<close>

theorem markSeen_keeps_firstSeen_counts_sightings:
  "(jsmap_get (cache t) k = Some r0
      \<longrightarrow> (\<exists>r. jsmap_get (cache (markSeen_calls t cs)) k = Some r \<and> firstSeen r = firstSeen r0))
   \<and> (jsmap_get (cache t) k = Some r0
      \<longrightarrow> (\<exists>r. jsmap_get (cache (markSeen t now k md)) k = Some r
               \<and> firstSeen r = firstSeen r0 \<and> lastSeen r = Some (Instant now)
               \<and> (0 < seenCount r0 \<and> seenCount r0 < 2 ^ 53 \<longrightarrow> seenCount r = seenCount r0 + 1)))
   \<and> (jsmap_get (cache t) k = None \<and> calls_on k cs \<noteq> []
        \<and> own_firstSeen (snd (snd (hd (calls_on k cs)))) = None
        \<and> own_lastSeen (snd (snd (hd (calls_on k cs)))) = None
        \<and> own_seenCount (snd (snd (hd (calls_on k cs)))) = None
        \<and> length (calls_on k cs) < 2 ^ 53
      \<longrightarrow> (\<exists>r. jsmap_get (cache (markSeen_calls t cs)) k = Some r
            \<and> firstSeen r = Some (Instant (fst (hd (calls_on k cs))))
            \<and> lastSeen r = Some (Instant (fst (last (calls_on k cs))))
            \<and> seenCount r = length (calls_on k cs)
            \<and> (\<forall>now md. \<exists>r'. jsmap_get (cache (markSeen (markSeen_calls t cs) now k md)) k = Some r'
                  \<and> firstSeen r' = firstSeen r \<and> lastSeen r' = Some (Instant now)
                  \<and> seenCount r' = seenCount r + 1)))"
proof (intro conjI impI)
  assume "jsmap_get (cache t) k = Some r0"
  from markSeen_calls_kept [OF this, of cs]
  show "\<exists>r. jsmap_get (cache (markSeen_calls t cs)) k = Some r \<and> firstSeen r = firstSeen r0"
    by blast
next
  assume h: "jsmap_get (cache t) k = Some r0"
  have "jsmap_get (cache (markSeen t now k md)) k
          = Some (r0\<lparr> lastSeen := Some (Instant now), seenCount := next_count (seenCount r0) \<rparr>)"
    using h by (rule markSeen_cache_existing)
  then show "\<exists>r. jsmap_get (cache (markSeen t now k md)) k = Some r
               \<and> firstSeen r = firstSeen r0 \<and> lastSeen r = Some (Instant now)
               \<and> (0 < seenCount r0 \<and> seenCount r0 < 2 ^ 53 \<longrightarrow> seenCount r = seenCount r0 + 1)"
    by (simp add: next_count_exact)
next
  assume h: "jsmap_get (cache t) k = None \<and> calls_on k cs \<noteq> []
        \<and> own_firstSeen (snd (snd (hd (calls_on k cs)))) = None
        \<and> own_lastSeen (snd (snd (hd (calls_on k cs)))) = None
        \<and> own_seenCount (snd (snd (hd (calls_on k cs)))) = None
        \<and> length (calls_on k cs) < 2 ^ 53"
  then have 1: "jsmap_get (cache t) k = None" and 2: "calls_on k cs \<noteq> []"
    and 3: "own_firstSeen (snd (snd (hd (calls_on k cs)))) = None"
    and 4: "own_lastSeen (snd (snd (hd (calls_on k cs)))) = None"
    and 5: "own_seenCount (snd (snd (hd (calls_on k cs)))) = None"
    and 6: "length (calls_on k cs) < 2 ^ 53" by blast+
  show "\<exists>r. jsmap_get (cache (markSeen_calls t cs)) k = Some r
            \<and> firstSeen r = Some (Instant (fst (hd (calls_on k cs))))
            \<and> lastSeen r = Some (Instant (fst (last (calls_on k cs))))
            \<and> seenCount r = length (calls_on k cs)
            \<and> (\<forall>now md. \<exists>r'. jsmap_get (cache (markSeen (markSeen_calls t cs) now k md)) k = Some r'
                  \<and> firstSeen r' = firstSeen r \<and> lastSeen r' = Some (Instant now)
                  \<and> seenCount r' = seenCount r + 1)"
    by (rule markSeen_calls_fresh [OF 1 2 3 4 5 6])
qed

theorem markSeen_keeps_firstSeen_counts_sightings_witness:
  "(\<exists>r. jsmap_get (cache (markSeen_calls (NoveltyTracker () None None :: (unit, unit) tracker)
                   [(1000, ''a'', plain ()), (2000, ''b'', plain ()), (5000, ''a'', plain ())])) ''a''
          = Some r
       \<and> firstSeen r = Some (Instant 1000) \<and> lastSeen r = Some (Instant 5000) \<and> seenCount r = 2)
   \<and> (\<exists>r. jsmap_get (cache (markSeen_calls
                (markSeen (NoveltyTracker () None None :: (unit, unit) tracker) 1000 ''a''
                   ((plain ())\<lparr> own_firstSeen := Some (Some (Instant 7)), own_seenCount := Some 10 \<rparr>))
                [(2000, ''b'', plain ()), (5000, ''a'', plain ())])) ''a'' = Some r
         \<and> firstSeen r = Some (Instant 7))
   \<and> (\<exists>r. jsmap_get (cache (markSeen
                (markSeen (NoveltyTracker () None None :: (unit, unit) tracker) 1000 ''a''
                   ((plain ())\<lparr> own_firstSeen := Some (Some (Instant 7)), own_seenCount := Some 10 \<rparr>))
                5000 ''a'' (plain ()))) ''a'' = Some r
         \<and> firstSeen r = Some (Instant 7) \<and> lastSeen r = Some (Instant 5000) \<and> seenCount r = 11)"
proof -
  define t :: "(unit, unit) tracker" where "t = NoveltyTracker () None None"
  define cs :: "(timestamp \<times> string \<times> unit metadata) list" where
    "cs = [(1000, ''a'', plain ()), (2000, ''b'', plain ()), (5000, ''a'', plain ())]"
  define md where "md = (plain ())\<lparr> own_firstSeen := Some (Some (Instant 7)), own_seenCount := Some 10 \<rparr>"
  define t1 where "t1 = markSeen t 1000 ''a'' md"
  define r1 :: "unit novelty_record" where
    "r1 = \<lparr> itemId = ''a'', firstSeen = Some (Instant 7), lastSeen = Some (Instant 1000),
            seenCount = 10, meta = () \<rparr>"
  note T = markSeen_keeps_firstSeen_counts_sightings
  have fresh: "jsmap_get (cache t) ''a'' = None"
    by (simp add: t_def NoveltyTracker_def jsmap_get_def)
  have mine_eq: "calls_on ''a'' cs = [(1000, ''a'', plain ()), (5000, ''a'', plain ())]"
    by (simp add: cs_def calls_on_def)
  have h3: "jsmap_get (cache t) ''a'' = None \<and> calls_on ''a'' cs \<noteq> []
        \<and> own_firstSeen (snd (snd (hd (calls_on ''a'' cs)))) = None
        \<and> own_lastSeen (snd (snd (hd (calls_on ''a'' cs)))) = None
        \<and> own_seenCount (snd (snd (hd (calls_on ''a'' cs)))) = None
        \<and> length (calls_on ''a'' cs) < 2 ^ 53"
    unfolding mine_eq by (simp add: fresh plain_def)
  from T [THEN conjunct2, THEN conjunct2, THEN mp, OF h3]
  obtain r where "jsmap_get (cache (markSeen_calls t cs)) ''a'' = Some r"
     "firstSeen r = Some (Instant (fst (hd (calls_on ''a'' cs))))"
     "lastSeen r = Some (Instant (fst (last (calls_on ''a'' cs))))"
     "seenCount r = length (calls_on ''a'' cs)"
    by (elim exE conjE)
  then have A: "\<exists>r. jsmap_get (cache (markSeen_calls t cs)) ''a'' = Some r
       \<and> firstSeen r = Some (Instant 1000) \<and> lastSeen r = Some (Instant 5000) \<and> seenCount r = 2"
    unfolding mine_eq by simp
  have c1: "jsmap_get (cache t1) ''a'' = Some r1"
    unfolding t1_def using markSeen_cache_new [OF fresh, of 1000 md]
    by (simp add: md_def r1_def new_record_def plain_def)
  from T [of t1 "''a''" r1 "[(2000, ''b'', plain ()), (5000, ''a'', plain ())]",
          THEN conjunct1, THEN mp, OF c1]
  have B: "\<exists>r. jsmap_get (cache (markSeen_calls t1 [(2000, ''b'', plain ()), (5000, ''a'', plain ())]))
                  ''a'' = Some r \<and> firstSeen r = Some (Instant 7)"
    by (simp add: r1_def)
  from T [of t1 "''a''" r1 _ 5000 "plain ()", THEN conjunct2, THEN conjunct1, THEN mp, OF c1]
  have C: "\<exists>r. jsmap_get (cache (markSeen t1 5000 ''a'' (plain ()))) ''a'' = Some r
         \<and> firstSeen r = Some (Instant 7) \<and> lastSeen r = Some (Instant 5000) \<and> seenCount r = 11"
    by (simp add: r1_def)
  show ?thesis
    using A B C unfolding t1_def t_def cs_def md_def by (intro conjI)
qed

subsection \<open>Flushing\<close>

text \<open>
  C9. Start from a tracker with an empty pending set (a new tracker, or one that has
  just been flushed). Flushing it returns it unchanged, and \<open>saveCalls\<close> with it: the
  backend's \<^verbatim>\<open>save\<close> is not called. After any sequence of \<^verbatim>\<open>markSeen\<close> calls the pending
  set holds exactly the ids touched, each once, with the record the cache now holds; if
  the backend's \<^verbatim>\<open>save\<close> succeeds on these records, \<^verbatim>\<open>flush\<close> calls it once with exactly
  them, empties the pending set, and a second flush is again a no-op.
\<close>

theorem flush_persists_touched_records:
  assumes "pendingUpdates t0 = []"
  shows "flush ad t0 = Inr t0
       \<and> set (jsmap_keys (pendingUpdates (markSeen_calls t0 cs))) = set (map (\<lambda>c. fst (snd c)) cs)
       \<and> distinct (jsmap_keys (pendingUpdates (markSeen_calls t0 cs)))
       \<and> (\<forall>k r. (k, r) \<in> set (pendingUpdates (markSeen_calls t0 cs))
                  \<longrightarrow> jsmap_get (cache (markSeen_calls t0 cs)) k = Some r)
       \<and> (cs \<noteq> [] \<and> save ad (jsmap_values (pendingUpdates (markSeen_calls t0 cs)))
                           (storage (markSeen_calls t0 cs)) = Inr s'
            \<longrightarrow> flush ad (markSeen_calls t0 cs)
                  = Inr ((markSeen_calls t0 cs)
                           \<lparr> storage := s', pendingUpdates := [],
                             saveCalls := saveCalls (markSeen_calls t0 cs)
                                            @ [jsmap_values (pendingUpdates (markSeen_calls t0 cs))] \<rparr>)
                \<and> (\<forall>t2. flush ad (markSeen_calls t0 cs) = Inr t2 \<longrightarrow> flush ad t2 = Inr t2))"
proof -
  define t1 where "t1 = markSeen_calls t0 cs"
  have ok0: "pending_ok t0" using assms by (simp add: pending_ok_def jsmap_keys_def jsmap_get_def)
  have ok1: "pending_ok t1" unfolding t1_def using ok0 by (rule pending_ok_calls)
  have a: "flush ad t0 = Inr t0" using assms by (rule flush_empty)
  have k0: "jsmap_keys (pendingUpdates t0) = []" using assms by (simp add: jsmap_keys_def)
  have b: "set (jsmap_keys (pendingUpdates t1)) = set (map (\<lambda>c. fst (snd c)) cs)"
    unfolding t1_def by (simp add: pending_keys_calls k0)
  have c: "distinct (jsmap_keys (pendingUpdates t1))" using ok1 by (simp add: pending_ok_def)
  have d: "\<forall>k r. (k, r) \<in> set (pendingUpdates t1) \<longrightarrow> jsmap_get (cache t1) k = Some r"
    using pending_in_cache [OF ok1] by blast
  have e: "cs \<noteq> [] \<and> save ad (jsmap_values (pendingUpdates t1)) (storage t1) = Inr s'
            \<longrightarrow> flush ad t1 = Inr (t1\<lparr> storage := s', pendingUpdates := [],
                 saveCalls := saveCalls t1 @ [jsmap_values (pendingUpdates t1)] \<rparr>)
           \<and> (\<forall>t2. flush ad t1 = Inr t2 \<longrightarrow> flush ad t2 = Inr t2)"
  proof (intro impI, elim conjE)
    assume ne: "cs \<noteq> []" and sv: "save ad (jsmap_values (pendingUpdates t1)) (storage t1) = Inr s'"
    from ne b have "jsmap_keys (pendingUpdates t1) \<noteq> []" by (cases cs) auto
    then have pne: "pendingUpdates t1 \<noteq> []" by (auto simp: jsmap_keys_def)
    have fl: "flush ad t1 = Inr (t1\<lparr> storage := s', pendingUpdates := [],
                 saveCalls := saveCalls t1 @ [jsmap_values (pendingUpdates t1)] \<rparr>)"
      using pne sv by (rule flush_nonempty)
    have "flush ad t2 = Inr t2" if "flush ad t1 = Inr t2" for t2
    proof -
      from that fl have "pendingUpdates t2 = []" by auto
      then show ?thesis by (rule flush_empty)
    qed
    with fl show "flush ad t1 = Inr (t1\<lparr> storage := s', pendingUpdates := [],
                 saveCalls := saveCalls t1 @ [jsmap_values (pendingUpdates t1)] \<rparr>)
           \<and> (\<forall>t2. flush ad t1 = Inr t2 \<longrightarrow> flush ad t2 = Inr t2)" by blast
  qed
  show ?thesis
    unfolding t1_def [symmetric]
    by (rule conjI [OF a], rule conjI [OF b], rule conjI [OF c], rule conjI [OF d], rule e)
qed

theorem flush_persists_touched_records_witness:
  "flush MemoryStorageAdapter (NoveltyTracker [] None None :: ((string, unit novelty_record) jsmap, unit) tracker)
     = Inr (NoveltyTracker [] None None)
   \<and> flush MemoryStorageAdapter
        (markSeen_calls (NoveltyTracker [] None None) [(1000, ''a'', plain ()), (2000, ''b'', plain ()), (5000, ''a'', plain ())])
     = Inr \<lparr> storage = [(''a'', \<lparr> itemId = ''a'', firstSeen = Some (Instant 1000), lastSeen = Some (Instant 5000), seenCount = 2, meta = () \<rparr>),
                        (''b'', \<lparr> itemId = ''b'', firstSeen = Some (Instant 2000), lastSeen = Some (Instant 2000), seenCount = 1, meta = () \<rparr>)],
            halfLifeDays = 1, minScore = 1 / 10,
            cache = [(''a'', \<lparr> itemId = ''a'', firstSeen = Some (Instant 1000), lastSeen = Some (Instant 5000), seenCount = 2, meta = () \<rparr>),
                     (''b'', \<lparr> itemId = ''b'', firstSeen = Some (Instant 2000), lastSeen = Some (Instant 2000), seenCount = 1, meta = () \<rparr>)],
            pendingUpdates = [],
            saveCalls = [[\<lparr> itemId = ''a'', firstSeen = Some (Instant 1000), lastSeen = Some (Instant 5000), seenCount = 2, meta = () \<rparr>,
                          \<lparr> itemId = ''b'', firstSeen = Some (Instant 2000), lastSeen = Some (Instant 2000), seenCount = 1, meta = () \<rparr>]] \<rparr>"
proof -
  define t0 :: "((string, unit novelty_record) jsmap, unit) tracker" where "t0 = NoveltyTracker [] None None"
  define cs :: "(timestamp \<times> string \<times> unit metadata) list" where
    "cs = [(1000, ''a'', plain ()), (2000, ''b'', plain ()), (5000, ''a'', plain ())]"
  define ra :: "unit novelty_record" where
    "ra = \<lparr> itemId = ''a'', firstSeen = Some (Instant 1000), lastSeen = Some (Instant 5000), seenCount = 2, meta = () \<rparr>"
  define rb :: "unit novelty_record" where
    "rb = \<lparr> itemId = ''b'', firstSeen = Some (Instant 2000), lastSeen = Some (Instant 2000), seenCount = 1, meta = () \<rparr>"
  have p0: "pendingUpdates t0 = []" by (simp add: t0_def NoveltyTracker_def)
  have t1: "markSeen_calls t0 cs
      = \<lparr> storage = [], halfLifeDays = 1, minScore = 1 / 10, cache = [(''a'', ra), (''b'', rb)],
          pendingUpdates = [(''a'', ra), (''b'', rb)], saveCalls = [] \<rparr>"
    by (simp add: t0_def cs_def ra_def rb_def NoveltyTracker_def markSeen_def new_record_def plain_def next_count_def jsmap_get_def
          DEFAULT_HALF_LIFE_DAYS_def MIN_NOVELTY_SCORE_def Let_def)
  have sv: "save MemoryStorageAdapter (jsmap_values (pendingUpdates (markSeen_calls t0 cs)))
              (storage (markSeen_calls t0 cs)) = Inr [(''a'', ra), (''b'', rb)]"
    unfolding t1 by (simp add: MemoryStorageAdapter_def memory_save_def jsmap_values_def ra_def rb_def)
  have ne: "cs \<noteq> []" by (simp add: cs_def)
  from flush_persists_touched_records [OF p0, of MemoryStorageAdapter cs "[(''a'', ra), (''b'', rb)]"] ne sv
  have "flush MemoryStorageAdapter t0 = Inr t0"
    and "flush MemoryStorageAdapter (markSeen_calls t0 cs)
          = Inr ((markSeen_calls t0 cs)\<lparr> storage := [(''a'', ra), (''b'', rb)], pendingUpdates := [],
                   saveCalls := saveCalls (markSeen_calls t0 cs)
                                  @ [jsmap_values (pendingUpdates (markSeen_calls t0 cs))] \<rparr>)"
    by blast+
  then have "flush MemoryStorageAdapter t0 = Inr t0
    \<and> flush MemoryStorageAdapter (markSeen_calls t0 cs)
          = Inr \<lparr> storage = [(''a'', ra), (''b'', rb)], halfLifeDays = 1, minScore = 1 / 10,
                  cache = [(''a'', ra), (''b'', rb)], pendingUpdates = [],
                  saveCalls = [[ra, rb]] \<rparr>"
    unfolding t1 by (simp add: jsmap_values_def)
  then show ?thesis
    unfolding t0_def cs_def ra_def rb_def .
qed

subsection \<open>The novelty score\<close>










section \<open>Properties of the classifier\<close>

lemma find_SomeD: "find P xs = Some x \<Longrightarrow> P x \<and> x \<in> set xs"
  by (induction xs) (auto split: if_splits)

lemma find_NoneD: "find P xs = None \<Longrightarrow> x \<in> set xs \<Longrightarrow> \<not> P x"
  by (induction xs) (auto split: if_splits)

lemma find_None_I: "(\<And>x. x \<in> set xs \<Longrightarrow> \<not> P x) \<Longrightarrow> find P xs = None"
  by (induction xs) auto

lemma first_match_map_None:
  "first_match P (map (\<lambda>(ty, k). (ty, sel k)) es) = None
     \<longleftrightarrow> (\<forall>e \<in> set es. find P (sel (snd e)) = None)"
proof (induction es)
  case Nil
  show ?case by simp
next
  case (Cons e es)
  obtain ty kws where e: "e = (ty, kws)" by (cases e) auto
  show ?case unfolding e using Cons.IH
    by (cases "find P (sel kws)") simp_all
qed

lemma first_match_map_Some:
  "first_match P (map (\<lambda>(ty, k). (ty, sel k)) es) = Some (ty, k) \<Longrightarrow>
     \<exists>pre kws post. es = pre @ (ty, kws) # post \<and> find P (sel kws) = Some k
        \<and> (\<forall>e \<in> set pre. find P (sel (snd e)) = None)"
proof (induction es)
  case Nil
  then show ?case by simp
next
  case (Cons e es)
  obtain ty0 kws0 where e: "e = (ty0, kws0)" by (cases e) auto
  show ?case
  proof (cases "find P (sel kws0)")
    case None
    with Cons.prems e have "first_match P (map (\<lambda>(ty, k). (ty, sel k)) es) = Some (ty, k)" by simp
    from Cons.IH [OF this] obtain pre kws post where
      p: "es = pre @ (ty, kws) # post" "find P (sel kws) = Some k"
         "\<forall>e \<in> set pre. find P (sel (snd e)) = None"
      by (elim exE conjE)
    have 1: "e # es = (e # pre) @ (ty, kws) # post" using p(1) by simp
    have 2: "\<forall>x \<in> set (e # pre). find P (sel (snd x)) = None" using None p(3) e by simp
    show ?thesis using 1 2 p(2) by blast
  next
    case (Some k0)
    with Cons.prems e have eq: "ty0 = ty" "k0 = k" by simp_all
    have 4: "find P (sel kws0) = Some k" using Some eq by simp
    show ?thesis
      by (rule exI [of _ "[]"], rule exI [of _ kws0], rule exI [of _ es])
         (simp add: e eq 4)
  qed
qed

lemma classify_exact:
  "first_match (hasKeyword (item_text it)) (map (\<lambda>(ty, k). (ty, exact k)) (signalKeywords fc)) = Some (ty, k)
   \<Longrightarrow> classifySignalType fc it =
        \<lparr> ctype = ty, keywordConfidence = High, matchedKeyword = Some k,
          isWatched = (find (hasKeyword (item_text it)) (userGlobalKeywords fc) \<noteq> None) \<rparr>"
  by (simp add: classifySignalType_def Let_def)

lemma classify_generic:
  "first_match (hasKeyword (item_text it)) (map (\<lambda>(ty, k). (ty, exact k)) (signalKeywords fc)) = None \<Longrightarrow>
   first_match (hasKeyword (item_text it)) (map (\<lambda>(ty, k). (ty, generic k)) (signalKeywords fc)) = Some (ty, k)
   \<Longrightarrow> ctype (classifySignalType fc it) = ty
       \<and> keywordConfidence (classifySignalType fc it) \<noteq> Low
       \<and> matchedKeyword (classifySignalType fc it) \<noteq> None"
  by (simp add: classifySignalType_def Let_def split: option.splits)


text \<open>
  C6. Classification looks at the exact keywords of all categories, in the order the
  categories are listed, before it looks at any generic keyword. If some category has an
  exact keyword that is in the text, the result is the first category, in that order,
  with such a keyword, together with the first matching exact keyword of that category
  and high confidence, whatever the generic keywords of the categories listed earlier
  are. Only if no exact keyword of any category is in the text do the generic keywords
  decide, again by the first category that has one in the text.
\<close>

theorem exact_keywords_checked_before_generic:
  "((ty, kws) \<in> set (signalKeywords fc) \<and> k \<in> set (exact kws) \<and> hasKeyword (item_text it) k
      \<longrightarrow> (\<exists>pre kws' post k'.
             signalKeywords fc = pre @ (ctype (classifySignalType fc it), kws') # post
           \<and> (\<forall>e \<in> set pre. \<forall>x \<in> set (exact (snd e)). \<not> hasKeyword (item_text it) x)
           \<and> find (hasKeyword (item_text it)) (exact kws') = Some k'
           \<and> k' \<in> set (exact kws') \<and> hasKeyword (item_text it) k'
           \<and> matchedKeyword (classifySignalType fc it) = Some k'
           \<and> keywordConfidence (classifySignalType fc it) = High))
   \<and> ((\<forall>e \<in> set (signalKeywords fc). \<forall>x \<in> set (exact (snd e)). \<not> hasKeyword (item_text it) x)
        \<and> (ty, kws) \<in> set (signalKeywords fc) \<and> k \<in> set (generic kws) \<and> hasKeyword (item_text it) k
      \<longrightarrow> (\<exists>pre kws' post k'.
             signalKeywords fc = pre @ (ctype (classifySignalType fc it), kws') # post
           \<and> (\<forall>e \<in> set pre. \<forall>x \<in> set (generic (snd e)). \<not> hasKeyword (item_text it) x)
           \<and> find (hasKeyword (item_text it)) (generic kws') = Some k'))"
proof (intro conjI impI)
  define P where "P = hasKeyword (item_text it)"
  assume h: "(ty, kws) \<in> set (signalKeywords fc) \<and> k \<in> set (exact kws) \<and> hasKeyword (item_text it) k"
  then have "find P (exact kws) \<noteq> None" using find_None_I find_NoneD [of P "exact kws" k]
    by (auto simp: P_def)
  with h have "\<exists>e \<in> set (signalKeywords fc). find P (exact (snd e)) \<noteq> None"
    by (intro bexI [of _ "(ty, kws)"]) simp_all
  then have "first_match P (map (\<lambda>(ty, k). (ty, exact k)) (signalKeywords fc)) \<noteq> None"
    by (simp add: first_match_map_None)
  then obtain ty' k' where fm: "first_match P (map (\<lambda>(ty, k). (ty, exact k)) (signalKeywords fc)) = Some (ty', k')"
    by (cases "first_match P (map (\<lambda>(ty, k). (ty, exact k)) (signalKeywords fc))") auto
  from first_match_map_Some [OF fm] obtain pre kws' post where
    p: "signalKeywords fc = pre @ (ty', kws') # post" "find P (exact kws') = Some k'"
       "\<forall>e \<in> set pre. find P (exact (snd e)) = None"
    by (elim exE conjE)
  have c: "classifySignalType fc it =
        \<lparr> ctype = ty', keywordConfidence = High, matchedKeyword = Some k',
          isWatched = (find (hasKeyword (item_text it)) (userGlobalKeywords fc) \<noteq> None) \<rparr>"
    using fm unfolding P_def by (rule classify_exact)
  have 1: "signalKeywords fc = pre @ (ctype (classifySignalType fc it), kws') # post"
    using p(1) c by simp
  have 2: "\<forall>e \<in> set pre. \<forall>x \<in> set (exact (snd e)). \<not> hasKeyword (item_text it) x"
    using p(3) find_NoneD [of P] unfolding P_def by blast
  have 3: "find (hasKeyword (item_text it)) (exact kws') = Some k'" using p(2) by (simp add: P_def)
  have 4: "k' \<in> set (exact kws')" "hasKeyword (item_text it) k'"
    using find_SomeD [OF 3] by simp_all
  have 5: "matchedKeyword (classifySignalType fc it) = Some k'"
     "keywordConfidence (classifySignalType fc it) = High" using c by simp_all
  show "\<exists>pre kws' post k'.
             signalKeywords fc = pre @ (ctype (classifySignalType fc it), kws') # post
           \<and> (\<forall>e \<in> set pre. \<forall>x \<in> set (exact (snd e)). \<not> hasKeyword (item_text it) x)
           \<and> find (hasKeyword (item_text it)) (exact kws') = Some k'
           \<and> k' \<in> set (exact kws') \<and> hasKeyword (item_text it) k'
           \<and> matchedKeyword (classifySignalType fc it) = Some k'
           \<and> keywordConfidence (classifySignalType fc it) = High"
    by (rule exI [of _ pre], rule exI [of _ kws'], rule exI [of _ post], rule exI [of _ k'])
       (intro conjI 1 2 3 4 5)
next
  define P where "P = hasKeyword (item_text it)"
  assume h: "(\<forall>e \<in> set (signalKeywords fc). \<forall>x \<in> set (exact (snd e)). \<not> hasKeyword (item_text it) x)
        \<and> (ty, kws) \<in> set (signalKeywords fc) \<and> k \<in> set (generic kws) \<and> hasKeyword (item_text it) k"
  then have "\<forall>e \<in> set (signalKeywords fc). find P (exact (snd e)) = None"
    using find_None_I [of _ P] unfolding P_def by blast
  then have ex: "first_match P (map (\<lambda>(ty, k). (ty, exact k)) (signalKeywords fc)) = None"
    by (simp add: first_match_map_None)
  from h have "find P (generic kws) \<noteq> None" using find_NoneD [of P "generic kws" k]
    by (auto simp: P_def)
  with h have "\<exists>e \<in> set (signalKeywords fc). find P (generic (snd e)) \<noteq> None"
    by (intro bexI [of _ "(ty, kws)"]) simp_all
  then have "first_match P (map (\<lambda>(ty, k). (ty, generic k)) (signalKeywords fc)) \<noteq> None"
    by (simp add: first_match_map_None)
  then obtain ty' k' where fm: "first_match P (map (\<lambda>(ty, k). (ty, generic k)) (signalKeywords fc)) = Some (ty', k')"
    by (cases "first_match P (map (\<lambda>(ty, k). (ty, generic k)) (signalKeywords fc))") auto
  from first_match_map_Some [OF fm] obtain pre kws' post where
    p: "signalKeywords fc = pre @ (ty', kws') # post" "find P (generic kws') = Some k'"
       "\<forall>e \<in> set pre. find P (generic (snd e)) = None"
    by (elim exE conjE)
  have c: "ctype (classifySignalType fc it) = ty'"
    using classify_generic [OF ex [unfolded P_def] fm [unfolded P_def]] by simp
  have 1: "signalKeywords fc = pre @ (ctype (classifySignalType fc it), kws') # post"
    using p(1) c by simp
  have 2: "\<forall>e \<in> set pre. \<forall>x \<in> set (generic (snd e)). \<not> hasKeyword (item_text it) x"
    using p(3) find_NoneD [of P] unfolding P_def by blast
  have 3: "find (hasKeyword (item_text it)) (generic kws') = Some k'" using p(2) by (simp add: P_def)
  show "\<exists>pre kws' post k'.
             signalKeywords fc = pre @ (ctype (classifySignalType fc it), kws') # post
           \<and> (\<forall>e \<in> set pre. \<forall>x \<in> set (generic (snd e)). \<not> hasKeyword (item_text it) x)
           \<and> find (hasKeyword (item_text it)) (generic kws') = Some k'"
    by (rule exI [of _ pre], rule exI [of _ kws'], rule exI [of _ post], rule exI [of _ k'])
       (intro conjI 1 2 3)
qed

theorem exact_keywords_checked_before_generic_witness:
  "(\<exists>pre kws' post k'.
       signalKeywords example_filter_context
         = pre @ (ctype (classifySignalType example_filter_context
                           (example_item ''1'' ''Rust is a popular alternative'' '''')), kws') # post
     \<and> (\<forall>e \<in> set pre. \<forall>x \<in> set (exact (snd e)).
           \<not> hasKeyword (item_text (example_item ''1'' ''Rust is a popular alternative'' '''')) x)
     \<and> find (hasKeyword (item_text (example_item ''1'' ''Rust is a popular alternative'' ''''))) (exact kws')
          = Some k'
     \<and> k' \<in> set (exact kws')
     \<and> hasKeyword (item_text (example_item ''1'' ''Rust is a popular alternative'' '''')) k'
     \<and> matchedKeyword (classifySignalType example_filter_context
                          (example_item ''1'' ''Rust is a popular alternative'' '''')) = Some k'
     \<and> keywordConfidence (classifySignalType example_filter_context
                             (example_item ''1'' ''Rust is a popular alternative'' '''')) = High)
   \<and> classifySignalType example_filter_context (example_item ''1'' ''Rust is a popular alternative'' '''')
        = \<lparr> ctype = ''trend'', keywordConfidence = High, matchedKeyword = Some ''rust'',
            isWatched = False \<rparr>
   \<and> (\<exists>pre kws' post k'.
       signalKeywords example_filter_context
         = pre @ (ctype (classifySignalType example_filter_context
                           (example_item ''2'' ''A popular alternative'' '''')), kws') # post
     \<and> (\<forall>e \<in> set pre. \<forall>x \<in> set (generic (snd e)).
           \<not> hasKeyword (item_text (example_item ''2'' ''A popular alternative'' '''')) x)
     \<and> find (hasKeyword (item_text (example_item ''2'' ''A popular alternative'' ''''))) (generic kws')
          = Some k')
   \<and> classifySignalType example_filter_context (example_item ''2'' ''A popular alternative'' '''')
        = \<lparr> ctype = ''competitive'', keywordConfidence = Medium,
            matchedKeyword = Some ''alternative'', isWatched = False \<rparr>"
proof -
  define kt where "kt = \<lparr> exact = [''rust''],
       generic = [''adoption'', ''growth'', ''rising'', ''popular'', ''trending'', ''enterprise''] \<rparr>"
  define kc where "kc = \<lparr> exact = [],
       generic = [''competitor'', ''alternative'', ''similar to'', ''competes with''] \<rparr>"
  have a1: "(''trend'', kt) \<in> set (signalKeywords example_filter_context)
            \<and> ''rust'' \<in> set (exact kt)
            \<and> hasKeyword (item_text (example_item ''1'' ''Rust is a popular alternative'' '''')) ''rust''"
    unfolding kt_def by code_simp
  have b1: "(\<forall>e \<in> set (signalKeywords example_filter_context). \<forall>x \<in> set (exact (snd e)).
               \<not> hasKeyword (item_text (example_item ''2'' ''A popular alternative'' '''')) x)
            \<and> (''competitive'', kc) \<in> set (signalKeywords example_filter_context)
            \<and> ''alternative'' \<in> set (generic kc)
            \<and> hasKeyword (item_text (example_item ''2'' ''A popular alternative'' '''')) ''alternative''"
    unfolding kc_def by code_simp
  have a2: "classifySignalType example_filter_context (example_item ''1'' ''Rust is a popular alternative'' '''')
        = \<lparr> ctype = ''trend'', keywordConfidence = High, matchedKeyword = Some ''rust'',
            isWatched = False \<rparr>"
    by code_simp
  have b2: "classifySignalType example_filter_context (example_item ''2'' ''A popular alternative'' '''')
        = \<lparr> ctype = ''competitive'', keywordConfidence = Medium,
            matchedKeyword = Some ''alternative'', isWatched = False \<rparr>"
    by code_simp
  note A = exact_keywords_checked_before_generic
             [of "''trend''" kt example_filter_context "''rust''"
                 "example_item ''1'' ''Rust is a popular alternative'' ''''", THEN conjunct1, rule_format, OF a1]
  note B = exact_keywords_checked_before_generic
             [of "''competitive''" kc example_filter_context "''alternative''"
                 "example_item ''2'' ''A popular alternative'' ''''", THEN conjunct2, rule_format, OF b1]
  show ?thesis by (intro conjI A a2 B b2)
qed










section \<open>The composite score\<close>

lemmas fl_eval = fl_def binade_def binade_up.simps binade_down.simps round_half_even_def
  Let_def scale_def

lemma fl_examples:
  "fl 0 = Fin 0" "fl 50 = Fin 50" "fl 70 = Fin 70" "fl 120 = Fin 120"
  "fl (7 / 10) = Fin (3152519739159347 / 4503599627370496)"
  "fl (3 / 10) = Fin (5404319552844595 / 18014398509481984)"
  by (simp_all add: fl_eval)

lemma example_timestamp: "getRelevantTimestamp (example_item i t d) Map.empty = Inr None"
  by (simp add: getRelevantTimestamp_def default_timestamp_def example_item_def or_else_def
        Object_prototype_names_def)

lemma example_engagement: "calculateEngagementScore (example_item i t d) Map.empty = Fin 0"
  by (simp add: calculateEngagementScore_def example_item_def getBaseline_def
        DEFAULT_ENGAGEMENT_BASELINES_def DEFAULT_BASELINE_def metric_score_def weighted2_def
        fl_examples isNaN_def Let_def)

lemma example_no_filter_result: "item_filter_result (example_item i t d) = None"
  by (simp add: example_item_def)

text \<open>
  C2. The claim asks for a composite that is the rounded weighted sum clamped to
  \<open>[0,100]\<close>. \<^verbatim>\<open>calculateSignalScore\<close> rounds the weighted sum and returns it as it is:
  unlike the recency and the engagement score, which end in
  \<^verbatim>\<open>Math.max(0, Math.min(100, score))\<close>, the composite is never clamped. With the three
  weights set to 1, a github item without a filter result, a timestamp or any
  engagement has the sub-scores 70, 50 and 0 and the composite 120, which is above 100.
\<close>

theorem signalScore_not_clamped:
  "calculateSignalScore nearest_engine 0 (example_item ''1'' ''Rust'' '''') unit_weights
     = Inr \<lparr> scored = example_item ''1'' ''Rust'' '''', signalScore = Fin 120,
             scoreBreakdown = \<lparr> relevance = Fin 70, recency = Fin 50, engagement = Fin 0 \<rparr> \<rparr>
   \<and> \<not> js_ge (Fin 100) (Fin 120)"
  by (simp add: calculateSignalScore_def example_timestamp example_engagement
        calculateRecencyScore_def relevance_sub_score_def CONFIDENCE_SCORES_def the_default_def
        weight_relevance_def weight_recency_def weight_engagement_def unit_weights_def
        example_no_filter_result fl_examples Let_def)

section \<open>Properties of the similarity engine\<close>

subsection \<open>Cache lookups and the calls of one group\<close>

lemma jsmap_get_delete: "jsmap_get (jsmap_delete k m) k' = (if k' = k then None else jsmap_get m k')"
  by (induction m) (auto simp: jsmap_get_def jsmap_delete_def)

lemma lru_get_lookup:
  "lru_get key c = (r, c') \<Longrightarrow> r = jsmap_get c key \<and> jsmap_get c' k = jsmap_get c k"
  by (auto simp: lru_get_def jsmap_get_set jsmap_get_delete split: option.splits)

lemma lru_get_miss: "jsmap_get c key = None \<Longrightarrow> lru_get key c = (None, c)"
  by (simp add: lru_get_def)

lemma lru_get_hit:
  "jsmap_get c key = Some v \<Longrightarrow> lru_get key c = (Some v, jsmap_set key v (jsmap_delete key c))"
  by (simp add: lru_get_def)

lemma embed_chunks_total:
  "pipeline_total p \<Longrightarrow> \<exists>vs. embed_chunks p cs = (Inr vs, cs)"
proof (induction cs)
  case Nil
  show ?case by simp
next
  case (Cons c cs)
  from Cons.prems obtain v where v: "p c = Inr v" unfolding pipeline_total_def by blast
  from Cons.IH [OF Cons.prems] obtain vs where vs: "embed_chunks p cs = (Inr vs, cs)" by blast
  show ?case by (simp add: v vs)
qed

lemma computeEmbedding_total:
  "pipeline_total p \<Longrightarrow> \<exists>v calls. computeEmbedding p text = (Inr v, calls)"
proof (cases "length text \<le> CHUNK_SIZE")
  case True
  assume "pipeline_total p"
  then obtain v where "p text = Inr v" unfolding pipeline_total_def by blast
  with True show ?thesis by (simp add: computeEmbedding_def)
next
  case False
  assume "pipeline_total p"
  from embed_chunks_total [OF this, of "chunks_of text"] obtain vs where
    "embed_chunks p (chunks_of text) = (Inr vs, chunks_of text)" by blast
  with False show ?thesis by (simp add: computeEmbedding_def)
qed

lemma start_group_context:
  "contextEmbedding (snd (start_group items ctx)) = contextEmbedding ctx
   \<and> lru_maxSize (snd (start_group items ctx)) = lru_maxSize ctx
   \<and> pipelineCalls (snd (start_group items ctx)) = pipelineCalls ctx"
proof (induction items arbitrary: ctx)
  case Nil
  show ?case by simp
next
  case (Cons it its)
  show ?case
  proof (cases "contextEmbedding ctx")
    case None
    then show ?thesis using Cons.IH [of ctx] by (simp add: split_beta)
  next
    case (Some ce)
    show ?thesis
    proof (cases "relevance_text it = []")
      case True
      then show ?thesis using Some Cons.IH [of ctx] by (simp add: split_beta)
    next
      case False
      obtain r c' where g: "lru_get (hashString (relevance_text it)) (lru_cache ctx) = (r, c')"
        by (cases "lru_get (hashString (relevance_text it)) (lru_cache ctx)") auto
      show ?thesis using Some False g Cons.IH [of "ctx\<lparr>lru_cache := c'\<rparr>"]
        by (cases r) (simp_all add: split_beta Let_def)
    qed
  qed
qed

lemma start_group_ids: "map fst (fst (start_group items ctx)) = map item_id items"
proof (induction items arbitrary: ctx)
  case Nil
  show ?case by simp
next
  case (Cons it its)
  show ?case
  proof (cases "contextEmbedding ctx")
    case None
    then show ?thesis using Cons.IH [of ctx] by (simp add: split_beta)
  next
    case (Some ce)
    show ?thesis
    proof (cases "relevance_text it = []")
      case True
      then show ?thesis using Some Cons.IH [of ctx] by (simp add: split_beta)
    next
      case False
      obtain r c' where g: "lru_get (hashString (relevance_text it)) (lru_cache ctx) = (r, c')"
        by (cases "lru_get (hashString (relevance_text it)) (lru_cache ctx)") auto
      show ?thesis using Some False g Cons.IH [of "ctx\<lparr>lru_cache := c'\<rparr>"]
        by (cases r) (simp_all add: split_beta Let_def)
    qed
  qed
qed

lemma start_group_no_rejected:
  "contextEmbedding ctx \<noteq> None \<Longrightarrow> no_rejected (fst (start_group items ctx))"
proof (induction items arbitrary: ctx)
  case Nil
  show ?case by (simp add: no_rejected_def)
next
  case (Cons it its)
  from Cons.prems obtain ce where Some: "contextEmbedding ctx = Some ce" by auto
  show ?case
  proof (cases "relevance_text it = []")
    case True
    then show ?thesis using Some Cons.IH [of ctx] by (simp add: split_beta no_rejected_def)
  next
    case False
    obtain r c' where g: "lru_get (hashString (relevance_text it)) (lru_cache ctx) = (r, c')"
      by (cases "lru_get (hashString (relevance_text it)) (lru_cache ctx)") auto
    show ?thesis using Some False g Cons.IH [of "ctx\<lparr>lru_cache := c'\<rparr>"]
      by (cases r) (simp_all add: split_beta Let_def no_rejected_def)
  qed
qed

lemma finish_group_total:
  "pipeline_total p \<Longrightarrow> no_rejected xs \<Longrightarrow>
   \<exists>rs ctx'. finish_group p ce xs ctx = Inr (rs, ctx') \<and> map fst rs = map fst xs
      \<and> contextEmbedding ctx' = contextEmbedding ctx \<and> lru_maxSize ctx' = lru_maxSize ctx"
proof (induction xs arbitrary: ctx)
  case Nil
  show ?case by simp
next
  case (Cons x xs)
  obtain i st where x: "x = (i, st)" by (cases x) auto
  from Cons.prems(2) have nr: "no_rejected xs" and st: "\<forall>e. st \<noteq> Rejected e"
    by (auto simp: no_rejected_def x)
  show ?case
  proof (cases st)
    case (Rejected e)
    with st show ?thesis by simp
  next
    case (Resolved v)
    from Cons.IH [OF Cons.prems(1) nr, of ctx] obtain rs ctx' where
      "finish_group p ce xs ctx = Inr (rs, ctx')" "map fst rs = map fst xs"
      "contextEmbedding ctx' = contextEmbedding ctx" "lru_maxSize ctx' = lru_maxSize ctx" by blast
    then show ?thesis by (simp add: x Resolved)
  next
    case (CacheHit cached)
    from Cons.IH [OF Cons.prems(1) nr, of ctx] obtain rs ctx' where
      "finish_group p ce xs ctx = Inr (rs, ctx')" "map fst rs = map fst xs"
      "contextEmbedding ctx' = contextEmbedding ctx" "lru_maxSize ctx' = lru_maxSize ctx" by blast
    then show ?thesis by (simp add: x CacheHit)
  next
    case (CacheMiss s h)
    from computeEmbedding_total [OF Cons.prems(1), of s] obtain v calls where
      ce: "computeEmbedding p s = (Inr v, calls)" by blast
    define ctx1 where "ctx1 = ctx\<lparr> lru_cache := lru_set (lru_maxSize ctx) h v (lru_cache ctx),
                            pipelineCalls := pipelineCalls ctx @ calls \<rparr>"
    from Cons.IH [OF Cons.prems(1) nr, of ctx1] obtain rs ctx' where
      "finish_group p ce xs ctx1 = Inr (rs, ctx')" "map fst rs = map fst xs"
      "contextEmbedding ctx' = contextEmbedding ctx1" "lru_maxSize ctx' = lru_maxSize ctx1" by blast
    then show ?thesis by (simp add: x CacheMiss ce ctx1_def)
  qed
qed

lemma relevance_group_total:
  assumes "pipeline_total p" and "contextEmbedding ctx \<noteq> None"
  shows "\<exists>rs ctx'. relevance_group p batch ctx = Inr (rs, ctx') \<and> map fst rs = map item_id batch
      \<and> contextEmbedding ctx' = contextEmbedding ctx \<and> lru_maxSize ctx' = lru_maxSize ctx"
proof -
  obtain xs ctx1 where sg: "start_group batch ctx = (xs, ctx1)" by (cases "start_group batch ctx") auto
  have nr: "no_rejected xs" using start_group_no_rejected [OF assms(2), of batch] sg by simp
  have c1: "contextEmbedding ctx1 = contextEmbedding ctx" "lru_maxSize ctx1 = lru_maxSize ctx"
    using start_group_context [of batch ctx] sg by simp_all
  have ids: "map fst xs = map item_id batch" using start_group_ids [of batch ctx] sg by simp
  from finish_group_total [OF assms(1) nr, of "case contextEmbedding ctx of None \<Rightarrow> [] | Some ce \<Rightarrow> ce" ctx1]
  obtain rs ctx' where "finish_group p (case contextEmbedding ctx of None \<Rightarrow> [] | Some ce \<Rightarrow> ce) xs ctx1 = Inr (rs, ctx')"
     "map fst rs = map fst xs" "contextEmbedding ctx' = contextEmbedding ctx1" "lru_maxSize ctx' = lru_maxSize ctx1"
    by blast
  then show ?thesis using sg c1 ids by (simp add: relevance_group_def)
qed

subsection \<open>The loop over the groups\<close>

lemma relevance_group_Nil: "relevance_group p [] ctx = Inr ([], ctx)"
  by (simp add: relevance_group_def)

lemma batch_loop_zero_aux:
  assumes "batch_loop p c items scores ctx = Some r"
  shows "\<not> (c = 0 \<and> items \<noteq> [])"
proof (rule batch_loop.raw_induct
         [where P = "\<lambda>p c items scores ctx r. \<not> (c = 0 \<and> items \<noteq> [])", OF _ assms], goal_cases)
  case (1 loop p c items scores ctx r)
  show ?case
  proof
    assume h: "c = 0 \<and> items \<noteq> []"
    with 1(2) have "loop p 0 items scores ctx = Some r"
      by (simp add: relevance_group_Nil)
    from 1(1) [OF this] h show False by simp
  qed
qed

lemma batch_loop_zero: "items \<noteq> [] \<Longrightarrow> batch_loop p 0 items scores ctx = None"
  using batch_loop_zero_aux [of p 0 items scores ctx] by (cases "batch_loop p 0 items scores ctx") auto

lemma finish_group_ids:
  "finish_group p ce xs ctx = Inr (rs, ctx') \<Longrightarrow> map fst rs = map fst xs"
proof (induction xs arbitrary: ctx rs ctx')
  case Nil
  then show ?case by simp
next
  case (Cons x xs)
  obtain i st where x: "x = (i, st)" by (cases x) auto
  show ?case
  proof (cases st)
    case (Rejected e)
    with Cons.prems x show ?thesis by simp
  next
    case (Resolved v)
    with Cons.prems x obtain rs0 where
      "finish_group p ce xs ctx = Inr (rs0, ctx')" "rs = (i, v) # rs0"
      by (auto split: sum.splits)
    with Cons.IH show ?thesis by (simp add: x)
  next
    case (CacheHit cached)
    with Cons.prems x obtain rs0 where
      "finish_group p ce xs ctx = Inr (rs0, ctx')" "rs = (i, cosineSimilarity ce cached) # rs0"
      by (auto split: sum.splits)
    with Cons.IH show ?thesis by (simp add: x)
  next
    case (CacheMiss s h)
    with Cons.prems x obtain v calls rs0 where
      "computeEmbedding p s = (Inr v, calls)"
      "finish_group p ce xs (ctx\<lparr> lru_cache := lru_set (lru_maxSize ctx) h v (lru_cache ctx),
                                 pipelineCalls := pipelineCalls ctx @ calls \<rparr>) = Inr (rs0, ctx')"
      "rs = (i, cosineSimilarity ce v) # rs0"
      by (auto split: sum.splits prod.splits)
    with Cons.IH show ?thesis by (simp add: x)
  qed
qed

lemma relevance_group_ids:
  "relevance_group p batch ctx = Inr (rs, ctx') \<Longrightarrow> map fst rs = map item_id batch"
  using finish_group_ids start_group_ids [of batch ctx]
  by (auto simp: relevance_group_def split: prod.splits)

lemma fold_set_keys:
  "set (jsmap_keys (fold (\<lambda>(i, score) m. jsmap_set i score m) rs scores))
     = set (jsmap_keys scores) \<union> set (map fst rs)"
proof (induction rs arbitrary: scores)
  case Nil
  show ?case by simp
next
  case (Cons r rs)
  obtain i v where r: "r = (i, v)" by (cases r) auto
  show ?case unfolding r by (simp add: Cons.IH jsmap_keys_set)
qed

lemma batch_loop_step:
  "items \<noteq> [] \<Longrightarrow> relevance_group p (take c items) ctx = Inr (rs, ctx1) \<Longrightarrow>
   batch_loop p c items scores ctx
     = batch_loop p c (drop c items) (fold (\<lambda>(i, score) m. jsmap_set i score m) rs scores) ctx1"
  by (subst batch_loop.simps) simp

lemma batch_loop_fail:
  "items \<noteq> [] \<Longrightarrow> relevance_group p (take c items) ctx = Inl e \<Longrightarrow>
   batch_loop p c items scores ctx = Some (Inl e)"
  by (subst batch_loop.simps) simp

lemma batch_loop_Nil: "batch_loop p c [] scores ctx = Some (Inr (scores, ctx))"
  by (subst batch_loop.simps) simp

lemma batch_loop_keys:
  "batch_loop p c items scores ctx = Some (Inr (scores', ctx')) \<Longrightarrow>
   set (jsmap_keys scores') = set (jsmap_keys scores) \<union> set (map item_id items)"
proof (induction "length items" arbitrary: items scores ctx rule: less_induct)
  case less
  show ?case
  proof (cases "items = []")
    case True
    with less.prems show ?thesis by (simp add: batch_loop_Nil)
  next
    case False
    note ne = this
    have cpos: "0 < c" using batch_loop_zero_aux [OF less.prems] ne by simp
    show ?thesis
    proof (cases "relevance_group p (take c items) ctx")
      case (Inl e)
      with less.prems ne show ?thesis by (simp add: batch_loop_fail)
    next
      case (Inr a)
      obtain rs ctx1 where a: "a = (rs, ctx1)" by (cases a) auto
      from less.prems have rec: "batch_loop p c (drop c items)
             (fold (\<lambda>(i, score) m. jsmap_set i score m) rs scores) ctx1 = Some (Inr (scores', ctx'))"
        using batch_loop_step [OF ne Inr [unfolded a]] by simp
      have ids: "map fst rs = map item_id (take c items)"
        using relevance_group_ids Inr a by blast
      from ne cpos have lt: "length (drop c items) < length items" by simp
      have u: "set (take c items) \<union> set (drop c items) = set items"
        by (metis append_take_drop_id set_append)
      have "set (map item_id (take c items)) \<union> set (map item_id (drop c items)) = set (map item_id items)"
        using u by (metis image_Un set_map)
      with less.hyps [OF lt rec] show ?thesis
        using ids by (simp add: fold_set_keys Un_assoc)
    qed
  qed
qed

lemma batch_loop_total:
  assumes "pipeline_total p" and "0 < c"
  shows "contextEmbedding ctx \<noteq> None \<Longrightarrow>
         \<exists>scores' ctx'. batch_loop p c items scores ctx = Some (Inr (scores', ctx'))"
proof (induction "length items" arbitrary: items scores ctx rule: less_induct)
  case less
  show ?case
  proof (cases "items = []")
    case True
    then show ?thesis by (simp add: batch_loop_Nil)
  next
    case False
    from relevance_group_total [OF assms(1) less.prems, of "take c items"] obtain rs ctx1 where
      g: "relevance_group p (take c items) ctx = Inr (rs, ctx1)"
      and c1: "contextEmbedding ctx1 = contextEmbedding ctx" by blast
    from False assms(2) have lt: "length (drop c items) < length items" by simp
    from c1 less.prems have c2: "contextEmbedding ctx1 \<noteq> None" by simp
    from less.hyps [OF lt c2] show ?thesis
      using batch_loop_step [OF False g] by simp
  qed
qed

lemma batch_loop_returns:
  assumes "0 < c"
  shows "\<exists>r. batch_loop p c items scores ctx = Some r"
proof (induction "length items" arbitrary: items scores ctx rule: less_induct)
  case less
  show ?case
  proof (cases "items = []")
    case True
    then show ?thesis by (simp add: batch_loop_Nil)
  next
    case False
    from False assms have lt: "length (drop c items) < length items" by simp
    show ?thesis
    proof (cases "relevance_group p (take c items) ctx")
      case (Inl e)
      then show ?thesis using False by (simp add: batch_loop_fail)
    next
      case (Inr a)
      obtain rs ctx1 where a: "a = (rs, ctx1)" by (cases a) auto
      from less.hyps [OF lt] show ?thesis
        using batch_loop_step [OF False Inr [unfolded a]] by simp
    qed
  qed
qed

lemma start_group_miss:
  "contextEmbedding ctx \<noteq> None \<Longrightarrow> it \<in> set items \<Longrightarrow> relevance_text it \<noteq> [] \<Longrightarrow>
   jsmap_get (lru_cache ctx) (hashString (relevance_text it)) = None \<Longrightarrow>
   (item_id it, CacheMiss (relevance_text it) (hashString (relevance_text it)))
      \<in> set (fst (start_group items ctx))"
proof (induction items arbitrary: ctx)
  case Nil
  then show ?case by simp
next
  case (Cons a items)
  from Cons.prems(1) obtain ce where Some: "contextEmbedding ctx = Some ce" by auto
  obtain r c' where g: "lru_get (hashString (relevance_text a)) (lru_cache ctx) = (r, c')"
    by (cases "lru_get (hashString (relevance_text a)) (lru_cache ctx)") auto
  from lru_get_lookup [OF g] have r: "r = jsmap_get (lru_cache ctx) (hashString (relevance_text a))"
    and keep: "jsmap_get c' (hashString (relevance_text it)) = None"
    using Cons.prems(4) by simp_all
  show ?case
  proof (cases "it = a")
    case True
    with r Cons.prems(4) have "r = None" by simp
    then show ?thesis using Some Cons.prems(3) g True by (simp add: split_beta Let_def)
  next
    case False
    with Cons.prems(2) have mem: "it \<in> set items" by simp
    show ?thesis
    proof (cases "relevance_text a = []")
      case True
      from Cons.IH [OF Cons.prems(1) mem Cons.prems(3) Cons.prems(4)]
      show ?thesis using Some True by (simp add: split_beta)
    next
      case False
      have "contextEmbedding (ctx\<lparr>lru_cache := c'\<rparr>) \<noteq> None" using Some by simp
      from Cons.IH [OF this mem Cons.prems(3)] keep
      have "(item_id it, CacheMiss (relevance_text it) (hashString (relevance_text it)))
               \<in> set (fst (start_group items (ctx\<lparr>lru_cache := c'\<rparr>)))" by simp
      then show ?thesis using Some False g by (cases r) (simp_all add: split_beta Let_def)
    qed
  qed
qed

lemma finish_group_fail:
  "(i, CacheMiss s h) \<in> set xs \<Longrightarrow> fst (computeEmbedding p s) = Inl e \<Longrightarrow>
   \<exists>e'. finish_group p ce xs ctx = Inl e'"
proof (induction xs arbitrary: ctx)
  case Nil
  then show ?case by simp
next
  case (Cons x xs)
  obtain j st where x: "x = (j, st)" by (cases x) auto
  show ?case
  proof (cases "x = (i, CacheMiss s h)")
    case True
    obtain r calls where "computeEmbedding p s = (r, calls)" by (cases "computeEmbedding p s") auto
    with Cons.prems(2) have "computeEmbedding p s = (Inl e, calls)" by simp
    then show ?thesis using True by simp
  next
    case False
    with Cons.prems(1) have mem: "(i, CacheMiss s h) \<in> set xs" by simp
    note IH = Cons.IH [OF mem Cons.prems(2)]
    show ?thesis
    proof (cases st)
      case (Rejected e0)
      then show ?thesis by (simp add: x)
    next
      case (Resolved v)
      from IH [of ctx] obtain e' where "finish_group p ce xs ctx = Inl e'" by blast
      then show ?thesis by (simp add: x Resolved)
    next
      case (CacheHit cached)
      from IH [of ctx] obtain e' where "finish_group p ce xs ctx = Inl e'" by blast
      then show ?thesis by (simp add: x CacheHit)
    next
      case (CacheMiss s0 h0)
      obtain r calls where c: "computeEmbedding p s0 = (r, calls)" by (cases "computeEmbedding p s0") auto
      show ?thesis
      proof (cases r)
        case (Inl e0)
        then show ?thesis by (simp add: x CacheMiss c)
      next
        case (Inr v)
        from IH [of "ctx\<lparr> lru_cache := lru_set (lru_maxSize ctx) h0 v (lru_cache ctx),
                            pipelineCalls := pipelineCalls ctx @ calls \<rparr>"]
        obtain e' where "finish_group p ce xs (ctx\<lparr> lru_cache := lru_set (lru_maxSize ctx) h0 v (lru_cache ctx),
                            pipelineCalls := pipelineCalls ctx @ calls \<rparr>) = Inl e'" by blast
        then show ?thesis by (simp add: x CacheMiss c Inr)
      qed
    qed
  qed
qed

lemma relevance_group_fail:
  assumes "contextEmbedding ctx \<noteq> None" "it \<in> set batch" "relevance_text it \<noteq> []"
      "jsmap_get (lru_cache ctx) (hashString (relevance_text it)) = None"
      "fst (computeEmbedding p (relevance_text it)) = Inl e"
  shows "\<exists>e'. relevance_group p batch ctx = Inl e'"
proof -
  obtain xs ctx1 where sg: "start_group batch ctx = (xs, ctx1)" by (cases "start_group batch ctx") auto
  from start_group_miss [OF assms(1-4)] sg
  have "(item_id it, CacheMiss (relevance_text it) (hashString (relevance_text it))) \<in> set xs" by simp
  from finish_group_fail [OF this assms(5)] show ?thesis
    using sg by (simp add: relevance_group_def)
qed

lemma lru_set_absent:
  "k \<noteq> h \<Longrightarrow> jsmap_get c h = None \<Longrightarrow> jsmap_get (lru_set m k v c) h = None"
  by (auto simp: lru_set_def jsmap_get_set jsmap_get_delete Let_def split: list.splits)

lemma start_group_lookup:
  "jsmap_get (lru_cache (snd (start_group items ctx))) h = jsmap_get (lru_cache ctx) h"
proof (induction items arbitrary: ctx)
  case Nil
  show ?case by simp
next
  case (Cons it its)
  show ?case
  proof (cases "contextEmbedding ctx")
    case None
    then show ?thesis using Cons.IH [of ctx] by (simp add: split_beta)
  next
    case (Some ce)
    show ?thesis
    proof (cases "relevance_text it = []")
      case True
      then show ?thesis using Some Cons.IH [of ctx] by (simp add: split_beta)
    next
      case False
      obtain r c' where g: "lru_get (hashString (relevance_text it)) (lru_cache ctx) = (r, c')"
        by (cases "lru_get (hashString (relevance_text it)) (lru_cache ctx)") auto
      from lru_get_lookup [OF g, of h] have k: "jsmap_get c' h = jsmap_get (lru_cache ctx) h" by simp
      show ?thesis using Some False g k Cons.IH [of "ctx\<lparr>lru_cache := c'\<rparr>"]
        by (cases r) (simp_all add: split_beta Let_def)
    qed
  qed
qed

lemma start_group_miss_hashes:
  "(i, CacheMiss s hh) \<in> set (fst (start_group items ctx)) \<Longrightarrow>
   \<exists>it \<in> set items. relevance_text it \<noteq> [] \<and> s = relevance_text it \<and> hh = hashString (relevance_text it)"
proof (induction items arbitrary: ctx)
  case Nil
  then show ?case by simp
next
  case (Cons it its)
  show ?case
  proof (cases "contextEmbedding ctx")
    case None
    with Cons.prems have "(i, CacheMiss s hh) \<in> set (fst (start_group its ctx))"
      by (simp add: split_beta)
    from Cons.IH [OF this] show ?thesis by auto
  next
    case (Some ce)
    show ?thesis
    proof (cases "relevance_text it = []")
      case True
      with Some Cons.prems have "(i, CacheMiss s hh) \<in> set (fst (start_group its ctx))"
        by (simp add: split_beta)
      from Cons.IH [OF this] show ?thesis by auto
    next
      case False
      obtain r c' where g: "lru_get (hashString (relevance_text it)) (lru_cache ctx) = (r, c')"
        by (cases "lru_get (hashString (relevance_text it)) (lru_cache ctx)") auto
      from Cons.prems Some False g
      have "(i, CacheMiss s hh) = (item_id it, CacheMiss (relevance_text it) (hashString (relevance_text it)))
            \<or> (i, CacheMiss s hh) \<in> set (fst (start_group its (ctx\<lparr>lru_cache := c'\<rparr>)))"
        by (cases r) (auto simp: split_beta Let_def)
      then show ?thesis
      proof
        assume "(i, CacheMiss s hh) = (item_id it, CacheMiss (relevance_text it) (hashString (relevance_text it)))"
        with False show ?thesis by auto
      next
        assume "(i, CacheMiss s hh) \<in> set (fst (start_group its (ctx\<lparr>lru_cache := c'\<rparr>)))"
        from Cons.IH [OF this] show ?thesis by auto
      qed
    qed
  qed
qed

lemma finish_group_absent:
  "finish_group p ce xs ctx = Inr (rs, ctx') \<Longrightarrow> jsmap_get (lru_cache ctx) h = None \<Longrightarrow>
   (\<forall>i s hh. (i, CacheMiss s hh) \<in> set xs \<longrightarrow> hh \<noteq> h) \<Longrightarrow>
   jsmap_get (lru_cache ctx') h = None \<and> contextEmbedding ctx' = contextEmbedding ctx"
proof (induction xs arbitrary: ctx rs)
  case Nil
  then show ?case by simp
next
  case (Cons x xs)
  obtain i st where x: "x = (i, st)" by (cases x) auto
  from Cons.prems(3) have rest: "\<forall>i s hh. (i, CacheMiss s hh) \<in> set xs \<longrightarrow> hh \<noteq> h" by auto
  show ?case
  proof (cases st)
    case (Rejected e)
    with Cons.prems x show ?thesis by simp
  next
    case (Resolved v)
    with Cons.prems x obtain rs0 where "finish_group p ce xs ctx = Inr (rs0, ctx')"
      by (auto split: sum.splits)
    from Cons.IH [OF this Cons.prems(2) rest] show ?thesis .
  next
    case (CacheHit cached)
    with Cons.prems x obtain rs0 where "finish_group p ce xs ctx = Inr (rs0, ctx')"
      by (auto split: sum.splits)
    from Cons.IH [OF this Cons.prems(2) rest] show ?thesis .
  next
    case (CacheMiss s hh)
    with Cons.prems x obtain v calls rs0 where
      f: "finish_group p ce xs (ctx\<lparr> lru_cache := lru_set (lru_maxSize ctx) hh v (lru_cache ctx),
                                 pipelineCalls := pipelineCalls ctx @ calls \<rparr>) = Inr (rs0, ctx')"
      by (auto split: sum.splits prod.splits)
    from Cons.prems(3) x CacheMiss have ne: "hh \<noteq> h" by auto
    have a: "jsmap_get (lru_cache (ctx\<lparr> lru_cache := lru_set (lru_maxSize ctx) hh v (lru_cache ctx),
                                 pipelineCalls := pipelineCalls ctx @ calls \<rparr>)) h = None"
      using lru_set_absent [OF ne Cons.prems(2)] by simp
    from Cons.IH [OF f a rest] show ?thesis by simp
  qed
qed

lemma relevance_group_absent:
  assumes "relevance_group p batch ctx = Inr (rs, ctx')" and "jsmap_get (lru_cache ctx) h = None"
      and "\<forall>it \<in> set batch. relevance_text it \<noteq> [] \<longrightarrow> hashString (relevance_text it) \<noteq> h"
  shows "jsmap_get (lru_cache ctx') h = None \<and> contextEmbedding ctx' = contextEmbedding ctx"
proof -
  obtain xs ctx1 where sg: "start_group batch ctx = (xs, ctx1)" by (cases "start_group batch ctx") auto
  have f: "finish_group p (case contextEmbedding ctx of None \<Rightarrow> [] | Some ce \<Rightarrow> ce) xs ctx1 = Inr (rs, ctx')"
    using assms(1) sg by (simp add: relevance_group_def)
  have a: "jsmap_get (lru_cache ctx1) h = None"
    using start_group_lookup [of batch ctx h] sg assms(2) by simp
  have b: "\<forall>i s hh. (i, CacheMiss s hh) \<in> set xs \<longrightarrow> hh \<noteq> h"
    using start_group_miss_hashes [of _ _ _ batch ctx] sg assms(3) by fastforce
  have c: "contextEmbedding ctx1 = contextEmbedding ctx"
    using start_group_context [of batch ctx] sg by simp
  from finish_group_absent [OF f a b] c show ?thesis by simp
qed

lemma batch_loop_aborts:
  assumes "0 < c" and "fst (computeEmbedding p (relevance_text it)) = Inl e"
      and "relevance_text it \<noteq> []"
  shows "contextEmbedding ctx \<noteq> None \<Longrightarrow> it \<in> set items \<Longrightarrow>
         jsmap_get (lru_cache ctx) (hashString (relevance_text it)) = None \<Longrightarrow>
         (\<forall>x \<in> set items. hashString (relevance_text x) = hashString (relevance_text it)
                               \<longrightarrow> relevance_text x = relevance_text it) \<Longrightarrow>
         \<exists>e'. batch_loop p c items scores ctx = Some (Inl e')"
proof (induction "length items" arbitrary: items scores ctx rule: less_induct)
  case less
  from less.prems(2) have ne: "items \<noteq> []" by auto
  show ?case
  proof (cases "relevance_group p (take c items) ctx")
    case (Inl e0)
    then show ?thesis using ne by (simp add: batch_loop_fail)
  next
    case (Inr a)
    obtain rs ctx1 where a: "a = (rs, ctx1)" by (cases a) auto
    note g = Inr [unfolded a]
    have notin: "it \<notin> set (take c items)"
    proof
      assume "it \<in> set (take c items)"
      from relevance_group_fail [OF less.prems(1) this assms(3) less.prems(3) assms(2)]
      show False using g by simp
    qed
    have "set (take c items) \<union> set (drop c items) = set items"
      by (metis append_take_drop_id set_append)
    with notin less.prems(2) have mem: "it \<in> set (drop c items)" by blast
    have nohash: "\<forall>x \<in> set (take c items). relevance_text x \<noteq> []
                    \<longrightarrow> hashString (relevance_text x) \<noteq> hashString (relevance_text it)"
    proof (intro ballI impI notI)
      fix x assume x: "x \<in> set (take c items)" and xne: "relevance_text x \<noteq> []"
        and hx: "hashString (relevance_text x) = hashString (relevance_text it)"
      from x have "x \<in> set items" by (rule in_set_takeD)
      with less.prems(4) hx have tx: "relevance_text x = relevance_text it" by blast
      from relevance_group_fail [OF less.prems(1) x xne, of p e]
           less.prems(3) assms(2) tx
      show False using g by simp
    qed
    from relevance_group_absent [OF g less.prems(3) nohash]
    have keep: "jsmap_get (lru_cache ctx1) (hashString (relevance_text it)) = None"
      and c1: "contextEmbedding ctx1 \<noteq> None" using less.prems(1) by simp_all
    from ne assms(1) have lt: "length (drop c items) < length items" by simp
    have sub: "\<forall>x \<in> set (drop c items). hashString (relevance_text x) = hashString (relevance_text it)
                               \<longrightarrow> relevance_text x = relevance_text it"
      using less.prems(4) by (meson in_set_dropD)
    from less.hyps [OF lt c1 mem keep sub] show ?thesis
      using batch_loop_step [OF ne g] by simp
  qed
qed

lemma getRelevanceScore_empty:
  "contextEmbedding ctx \<noteq> None \<Longrightarrow> relevance_text it = [] \<Longrightarrow> getRelevanceScore p it ctx = Inr (0, ctx)"
  by (auto simp: getRelevanceScore_def)

subsection \<open>A run on two items\<close>

lemma hash_examples:
  "hashString ''Rust tools'' = ''-86y2wx''" "hashString ''Rust'' = ''1iuis''"
  "hashString ''bad'' = ''232d''"
  by (simp_all add: hashString_def hash_step_def toString36_def digits36.simps base36_chars_def)

lemma relevance_text_examples:
  "relevance_text (example_item i ''Rust'' '''') = ''Rust''"
  "relevance_text (example_item i ''bad'' '''') = ''bad''"
  by (simp_all add: relevance_text_def example_item_def trim_def is_space_def)

lemma example_item_id: "item_id (example_item i t d) = i"
  by (simp add: example_item_def)

lemma computeEmbedding_examples:
  "computeEmbedding constant_pipeline ''Rust tools'' = (Inr [1, 0], [''Rust tools''])"
  "computeEmbedding failing_pipeline ''Rust tools'' = (Inr [1, 0], [''Rust tools''])"
  "computeEmbedding constant_pipeline ''Rust'' = (Inr [1, 0], [''Rust''])"
  "computeEmbedding failing_pipeline ''Rust'' = (Inr [1, 0], [''Rust''])"
  "computeEmbedding failing_pipeline ''bad'' = (Inl (ProviderFailed ''boom''), [''bad''])"
  by (simp_all add: computeEmbedding_def CHUNK_SIZE_def constant_pipeline_def failing_pipeline_def)

lemma cosine_unit: "cosineSimilarity [1, 0] [1, 0] = 1"
  by (simp add: cosineSimilarity_def)

lemma example_setContext:
  "setContext constant_pipeline ''Rust tools'' (EmbeddingContext None) = Inr ([1, 0], example_embedding_context)"
  "setContext failing_pipeline ''Rust tools'' (EmbeddingContext None) = Inr ([1, 0], example_embedding_context)"
  by (simp_all add: setContext_def embed_def hash_examples EmbeddingContext_def lru_get_def
        jsmap_get_def computeEmbedding_examples lru_set_def jsmap_has_def DEFAULT_CACHE_SIZE_def
        example_embedding_context_def Let_def)

lemma example_batch_run:
  "batchRelevanceScores constant_pipeline
     [example_item ''1'' ''Rust'' '''', example_item ''2'' ''Rust'' ''''] 10 example_embedding_context
   = Some (Inr ([(''1'', 1), (''2'', 1)],
                \<lparr> contextEmbedding = Some [1, 0], lru_maxSize = 1000,
                  lru_cache = [(''-86y2wx'', [1, 0]), (''1iuis'', [1, 0])],
                  pipelineCalls = [''Rust tools'', ''Rust'', ''Rust''] \<rparr>))"
proof -
  have s: "start_group [example_item ''1'' ''Rust'' '''', example_item ''2'' ''Rust'' ''''] example_embedding_context
         = ([(''1'', CacheMiss ''Rust'' ''1iuis''), (''2'', CacheMiss ''Rust'' ''1iuis'')], example_embedding_context)"
    by (simp add: example_embedding_context_def relevance_text_examples hash_examples example_item_id
          lru_get_def jsmap_get_def Let_def)
  have t: "take 10 [example_item ''1'' ''Rust'' '''', example_item ''2'' ''Rust'' '''']
             = [example_item ''1'' ''Rust'' '''', example_item ''2'' ''Rust'' '''']" by simp
  have g: "relevance_group constant_pipeline
             (take 10 [example_item ''1'' ''Rust'' '''', example_item ''2'' ''Rust'' ''''])
             example_embedding_context
           = Inr ([(''1'', 1), (''2'', 1)],
                \<lparr> contextEmbedding = Some [1, 0], lru_maxSize = 1000,
                  lru_cache = [(''-86y2wx'', [1, 0]), (''1iuis'', [1, 0])],
                  pipelineCalls = [''Rust tools'', ''Rust'', ''Rust''] \<rparr>)"
    unfolding t relevance_group_def s
    by (simp add: computeEmbedding_examples example_embedding_context_def cosine_unit
          lru_set_def jsmap_has_def jsmap_get_def jsmap_delete_def)
  show ?thesis unfolding batchRelevanceScores_def
    by (subst batch_loop_step [OF _ g]) (simp_all add: batch_loop_Nil)
qed

lemma constant_pipeline_total: "pipeline_total constant_pipeline"
  by (simp add: pipeline_total_def constant_pipeline_def)

text \<open>
  C1, as the claim states it, fails: nothing catches a failure of the provider. With a
  provider that throws on the text of the second of two items, the call of
  \<^verbatim>\<open>batchRelevanceScores\<close> is rejected with the provider's error; it returns no score
  for either item.
\<close>

theorem provider_failure_aborts_batch:
  "batchRelevanceScores failing_pipeline
     [example_item ''1'' ''Rust'' '''', example_item ''2'' ''bad'' ''''] 10 example_embedding_context
   = Some (Inl (ProviderFailed ''boom''))"
proof -
  have s: "start_group [example_item ''1'' ''Rust'' '''', example_item ''2'' ''bad'' ''''] example_embedding_context
         = ([(''1'', CacheMiss ''Rust'' ''1iuis''), (''2'', CacheMiss ''bad'' ''232d'')], example_embedding_context)"
    by (simp add: example_embedding_context_def relevance_text_examples hash_examples example_item_id
          lru_get_def jsmap_get_def Let_def)
  have t: "take 10 [example_item ''1'' ''Rust'' '''', example_item ''2'' ''bad'' '''']
             = [example_item ''1'' ''Rust'' '''', example_item ''2'' ''bad'' '''']" by simp
  have g: "relevance_group failing_pipeline
             (take 10 [example_item ''1'' ''Rust'' '''', example_item ''2'' ''bad'' ''''])
             example_embedding_context = Inl (ProviderFailed ''boom'')"
    unfolding t relevance_group_def s by (simp add: computeEmbedding_examples)
  show ?thesis unfolding batchRelevanceScores_def
    by (rule batch_loop_fail [OF _ g]) simp
qed

text \<open>
  C1, amended. \<^verbatim>\<open>batchRelevanceScores\<close> has no handling of its own for a failure of the
  embedding provider. If the provider throws while the embedding of an item is computed
  (an item with non-empty text whose hash is not in the cache, and whose hash no other
  text of the batch shares), the whole call is rejected with an error and returns no
  scores. If the provider throws for no text, the call returns, and then every item of
  the batch has a score. An item with empty text gets the similarity 0 without any call
  of the provider.
\<close>

theorem provider_failure_rejects_whole_batch:
  "(0 < c \<and> contextEmbedding ctx \<noteq> None \<and> it \<in> set items \<and> relevance_text it \<noteq> []
      \<and> jsmap_get (lru_cache ctx) (hashString (relevance_text it)) = None
      \<and> fst (computeEmbedding p (relevance_text it)) = Inl e
      \<and> (\<forall>x \<in> set items. hashString (relevance_text x) = hashString (relevance_text it)
                              \<longrightarrow> relevance_text x = relevance_text it)
     \<longrightarrow> (\<exists>e'. batchRelevanceScores p items c ctx = Some (Inl e')))
   \<and> (pipeline_total p \<and> 0 < c \<and> contextEmbedding ctx \<noteq> None
     \<longrightarrow> (\<exists>scores ctx'. batchRelevanceScores p items c ctx = Some (Inr (scores, ctx'))))
   \<and> (batchRelevanceScores p items c ctx = Some (Inr (scores, ctx'))
     \<longrightarrow> (\<forall>x \<in> set items. jsmap_has scores (item_id x)))
   \<and> (contextEmbedding ctx \<noteq> None \<and> relevance_text it = []
     \<longrightarrow> getRelevanceScore p it ctx = Inr (0, ctx))"
proof (intro conjI impI)
  assume h: "0 < c \<and> contextEmbedding ctx \<noteq> None \<and> it \<in> set items \<and> relevance_text it \<noteq> []
      \<and> jsmap_get (lru_cache ctx) (hashString (relevance_text it)) = None
      \<and> fst (computeEmbedding p (relevance_text it)) = Inl e
      \<and> (\<forall>x \<in> set items. hashString (relevance_text x) = hashString (relevance_text it)
                              \<longrightarrow> relevance_text x = relevance_text it)"
  then have 1: "0 < c" and 2: "fst (computeEmbedding p (relevance_text it)) = Inl e"
    and 3: "relevance_text it \<noteq> []" and 4: "contextEmbedding ctx \<noteq> None" and 5: "it \<in> set items"
    and 6: "jsmap_get (lru_cache ctx) (hashString (relevance_text it)) = None"
    and 7: "\<forall>x \<in> set items. hashString (relevance_text x) = hashString (relevance_text it)
                              \<longrightarrow> relevance_text x = relevance_text it"
    by blast+
  show "\<exists>e'. batchRelevanceScores p items c ctx = Some (Inl e')"
    unfolding batchRelevanceScores_def by (rule batch_loop_aborts [OF 1 2 3 4 5 6 7])
next
  assume h: "pipeline_total p \<and> 0 < c \<and> contextEmbedding ctx \<noteq> None"
  then have 1: "pipeline_total p" and 2: "0 < c" and 3: "contextEmbedding ctx \<noteq> None" by blast+
  show "\<exists>scores ctx'. batchRelevanceScores p items c ctx = Some (Inr (scores, ctx'))"
    unfolding batchRelevanceScores_def by (rule batch_loop_total [OF 1 2 3])
next
  assume h: "batchRelevanceScores p items c ctx = Some (Inr (scores, ctx'))"
  from batch_loop_keys [OF h [unfolded batchRelevanceScores_def]]
  have "set (jsmap_keys scores) = set (map item_id items)" by (simp add: jsmap_keys_def)
  then show "\<forall>x \<in> set items. jsmap_has scores (item_id x)"
    by (simp add: jsmap_has_keys)
next
  assume "contextEmbedding ctx \<noteq> None \<and> relevance_text it = []"
  then show "getRelevanceScore p it ctx = Inr (0, ctx)"
    by (simp add: getRelevanceScore_empty)
qed

theorem provider_failure_rejects_whole_batch_witness:
  "(\<exists>e'. batchRelevanceScores failing_pipeline
            [example_item ''1'' ''Rust'' '''', example_item ''2'' ''bad'' ''''] 10 example_embedding_context
          = Some (Inl e'))
   \<and> (\<exists>scores ctx'. batchRelevanceScores constant_pipeline
            [example_item ''1'' ''Rust'' '''', example_item ''2'' ''Rust'' ''''] 10 example_embedding_context
          = Some (Inr (scores, ctx')))
   \<and> jsmap_has [(''1'', 1::real), (''2'', 1)] (item_id (example_item ''1'' ''Rust'' ''''))
   \<and> jsmap_has [(''1'', 1::real), (''2'', 1)] (item_id (example_item ''2'' ''Rust'' ''''))
   \<and> getRelevanceScore constant_pipeline (example_item ''3'' '''' '''') example_embedding_context
        = Inr (0, example_embedding_context)"
proof -
  note T = provider_failure_rejects_whole_batch
  have c: "contextEmbedding example_embedding_context \<noteq> None"
    by (simp add: example_embedding_context_def)
  have h1: "(0::nat) < 10 \<and> contextEmbedding example_embedding_context \<noteq> None
      \<and> example_item ''2'' ''bad'' '''' \<in> set [example_item ''1'' ''Rust'' '''', example_item ''2'' ''bad'' '''']
      \<and> relevance_text (example_item ''2'' ''bad'' '''') \<noteq> []
      \<and> jsmap_get (lru_cache example_embedding_context)
           (hashString (relevance_text (example_item ''2'' ''bad'' ''''))) = None
      \<and> fst (computeEmbedding failing_pipeline (relevance_text (example_item ''2'' ''bad'' '''')))
           = Inl (ProviderFailed ''boom'')
      \<and> (\<forall>x \<in> set [example_item ''1'' ''Rust'' '''', example_item ''2'' ''bad'' ''''].
            hashString (relevance_text x) = hashString (relevance_text (example_item ''2'' ''bad'' ''''))
              \<longrightarrow> relevance_text x = relevance_text (example_item ''2'' ''bad'' ''''))"
    by (simp add: c relevance_text_examples hash_examples computeEmbedding_examples)
       (simp add: example_embedding_context_def jsmap_get_def)
  have h2: "pipeline_total constant_pipeline \<and> (0::nat) < 10
              \<and> contextEmbedding example_embedding_context \<noteq> None"
    by (simp add: constant_pipeline_total c)
  have h4: "contextEmbedding example_embedding_context \<noteq> None
              \<and> relevance_text (example_item ''3'' '''' '''') = []"
    by (simp add: c relevance_text_def example_item_def trim_def is_space_def)
  note A = T [THEN conjunct1, rule_format, OF h1]
  note B = T [THEN conjunct2, THEN conjunct1, rule_format, OF h2]
  note C = T [THEN conjunct2, THEN conjunct2, THEN conjunct1, THEN mp, OF example_batch_run]
  note D = T [THEN conjunct2, THEN conjunct2, THEN conjunct2, rule_format, OF h4]
  from C have C1: "jsmap_has [(''1'', 1::real), (''2'', 1)] (item_id (example_item ''1'' ''Rust'' ''''))"
    and C2: "jsmap_has [(''1'', 1::real), (''2'', 1)] (item_id (example_item ''2'' ''Rust'' ''''))"
    by simp_all
  show ?thesis by (intro conjI A B C1 C2 D)
qed

section \<open>The filter run\<close>

lemma seen_calls_ids: "map (\<lambda>c. fst (snd c)) (seen_calls clock k items) = map item_id items"
  by (induction items arbitrary: k) simp_all

lemma filter_loop_tracker:
  "fst (snd (filter_loop clock relT novT scores k items tr fc))
     = map_option (\<lambda>t. markSeen_calls t (seen_calls clock k items)) tr"
proof (induction items arbitrary: k tr fc)
  case Nil
  show ?case by (cases tr) simp_all
next
  case (Cons it its)
  show ?case
  proof (cases tr)
    case None
    show ?thesis unfolding None
      by (simp add: Let_def split_beta Cons.IH)
  next
    case (Some t)
    show ?thesis unfolding Some
      by (simp add: Let_def split_beta Cons.IH)
  qed
qed

lemma filter_loop_seenIds:
  "seenIds (snd (snd (filter_loop clock relT novT scores k items tr fc)))
     = seenIds fc \<union> set (map item_id items)"
proof (induction items arbitrary: k tr fc)
  case Nil
  show ?case by simp
next
  case (Cons it its)
  show ?case
    by (simp add: Let_def split_beta Cons.IH fc_markSeen_def)
qed

lemma markSeen_cache_keys:
  "set (jsmap_keys (cache (markSeen t now i md))) = insert i (set (jsmap_keys (cache t)))"
  by (simp add: markSeen_def jsmap_keys_set Let_def split: option.splits)

lemma cache_keys_calls:
  "set (jsmap_keys (cache (markSeen_calls t cs)))
     = set (jsmap_keys (cache t)) \<union> set (map (\<lambda>c. fst (snd c)) cs)"
proof (induction cs arbitrary: t)
  case Nil
  then show ?case by simp
next
  case (Cons c cs)
  obtain now i md where c: "c = (now, i, md)" by (cases c) auto
  show ?case unfolding c by (simp add: Cons.IH markSeen_cache_keys)
qed

lemma flush_cache: "flush ad t = Inr t' \<Longrightarrow> cache t' = cache t"
  by (auto simp: flush_def Let_def split: if_splits sum.splits)

lemma valid_items_nonempty_id: "it \<in> set (valid_items items) \<Longrightarrow> item_id it \<noteq> []"
  by (auto simp: valid_items_def List.map_filter_def split: option.splits if_splits)

lemma filterItems_tracker:
  assumes eq: "filterItems env items context options ec (Some t) = Some (Inr (out, ec', tr'))"
      and ne: "valid_items (the_default [] items) \<noteq> []"
  shows "\<exists>t1 t3. loadBatch (env_adapter env) (map item_id (valid_items (the_default [] items))) t = Inr t1
            \<and> flush (env_adapter env)
                 (markSeen_calls t1 (seen_calls (env_clock env) 0 (valid_items (the_default [] items)))) = Inr t3
            \<and> tr' = Some t3"
proof -
  define V where "V = valid_items (the_default [] items)"
  from ne have i1: "\<not> (case items of None \<Rightarrow> True | Some l \<Rightarrow> length l = 0)"
    by (cases items) (auto simp: the_default_def valid_items_def List.map_filter_def)
  from eq i1 have c1: "\<not> (case context of None \<Rightarrow> True | Some c \<Rightarrow> c = [])"
    by (auto simp: filterItems_def Let_def)
  have v1: "\<not> length V = 0" using ne by (simp add: V_def)
  define E where "E = (case ec of Some e \<Rightarrow> e | None \<Rightarrow> EmbeddingContext (Some 1000))"
  obtain ce e1 where sc: "setContext (env_pipeline env) (the_default [] context) E = Inr (ce, e1)"
    using eq i1 c1 v1 unfolding filterItems_def Let_def V_def [symmetric] E_def [symmetric]
    by (cases "setContext (env_pipeline env) (the_default [] context) E") auto
  obtain t1 where lb: "loadBatch (env_adapter env) (map item_id V) t = Inr t1"
    using eq i1 c1 v1 sc unfolding filterItems_def Let_def V_def [symmetric] E_def [symmetric]
    by (cases "loadBatch (env_adapter env) (map item_id V) t") auto
  obtain scores e2 where br: "batchRelevanceScores (env_pipeline env) V
        (the_default 10 (concurrency options)) e1 = Some (Inr (scores, e2))"
    using eq i1 c1 v1 sc lb unfolding filterItems_def Let_def V_def [symmetric] E_def [symmetric]
    by (cases "batchRelevanceScores (env_pipeline env) V (the_default 10 (concurrency options)) e1")
       (auto split: sum.splits)
  define FC where "FC = setContextKeywords (env_extractContextKeywords env (the_default [] context))
                               (setSignalKeywords
                                  (env_parseContextForSignalKeywords env (the_default [] context))
                                  (userKeywords options)
                                  (FilterContext (existingIds options)))"
  define L where "L = filter_loop (env_clock env)
        (the_default DEFAULT_RELEVANCE_THRESHOLD (relevanceThreshold options))
        (the_default DEFAULT_NOVELTY_THRESHOLD (noveltyThreshold options)) scores 0 V (Some t1) FC"
  have l2: "fst (snd L) = Some (markSeen_calls t1 (seen_calls (env_clock env) 0 V))"
    unfolding L_def by (simp add: filter_loop_tracker)
  obtain fi fc2 where L_eq: "L = (fi, Some (markSeen_calls t1 (seen_calls (env_clock env) 0 V)), fc2)"
    using l2 by (cases L) auto
  obtain t3 where fl: "flush (env_adapter env) (markSeen_calls t1 (seen_calls (env_clock env) 0 V)) = Inr t3"
    and tr': "tr' = Some t3"
    using eq i1 c1 v1 sc lb br L_eq [unfolded L_def]
    unfolding filterItems_def Let_def V_def [symmetric] E_def [symmetric] FC_def [symmetric]
    by (cases "flush (env_adapter env) (markSeen_calls t1 (seen_calls (env_clock env) 0 V))")
       (auto split: sum.splits)
  show ?thesis using lb fl tr' unfolding V_def by blast
qed

lemma embed_total:
  assumes "pipeline_total p"
  shows "\<exists>v ctx'. embed p s ctx = Inr (v, ctx')"
proof -
  obtain r c' where g: "lru_get (hashString s) (lru_cache ctx) = (r, c')"
    by (cases "lru_get (hashString s) (lru_cache ctx)") auto
  from computeEmbedding_total [OF assms, of s] obtain v calls where
    ce: "computeEmbedding p s = (Inr v, calls)" by blast
  show ?thesis by (cases r) (simp_all add: embed_def g ce Let_def)
qed

lemma setContext_total:
  assumes "pipeline_total p"
  shows "\<exists>v ctx'. setContext p s ctx = Inr (v, ctx') \<and> contextEmbedding ctx' \<noteq> None"
proof -
  from embed_total [OF assms, of s ctx] obtain v ctx1 where "embed p s ctx = Inr (v, ctx1)" by blast
  then show ?thesis by (simp add: setContext_def)
qed

lemma filterItems_no_items:
  "items = None \<or> items = Some [] \<Longrightarrow>
   filterItems env items context options ec tr = Some (Inr ([], ec, tr))"
  by (auto simp: filterItems_def)

lemma filterItems_bad_context:
  "items = Some (x # xs) \<Longrightarrow> context = None \<or> context = Some [] \<Longrightarrow>
   filterItems env items context options ec tr = Some (Inl ContextMustBeNonEmptyString)"
  by (auto simp: filterItems_def)

lemma filterItems_no_valid_items:
  "items = Some l \<Longrightarrow> valid_items l = [] \<Longrightarrow> context = Some (c # cs) \<Longrightarrow>
   filterItems env items context options ec tr = Some (Inr ([], ec, tr))"
  by (cases l) (simp_all add: filterItems_def the_default_def)

lemma default_timestamp_update:
  "default_timestamp (it\<lparr> item_filter_result := a, filtered_at := b \<rparr>) = default_timestamp it"
  by (simp add: default_timestamp_def Let_def)

lemma timestamp_update:
  "getRelevantTimestamp (it\<lparr> item_filter_result := a, filtered_at := b \<rparr>) tf
     = getRelevantTimestamp it tf"
  by (simp add: getRelevantTimestamp_def default_timestamp_update
        split: option.splits list.splits)

lemma filter_loop_items:
  "x \<in> set (fst (filter_loop clock relT novT scores k items tr fc)) \<Longrightarrow>
   \<exists>it \<in> set items. \<exists>a b. x = it\<lparr> item_filter_result := a, filtered_at := b \<rparr>"
proof (induction items arbitrary: k tr fc)
  case Nil
  then show ?case by simp
next
  case (Cons it its)
  define tr' where "tr' = (case tr of
       Some t \<Rightarrow> Some (markSeen t (clock (3 * k + 1)) (item_id it)
                         (plain \<lparr> seen_title = title it, seen_source = source it \<rparr>))
     | None \<Rightarrow> None)"
  define R where "R = filter_loop clock relT novT scores (Suc k) its tr' (fc_markSeen fc (item_id it))"
  from Cons.prems have "x \<in> set (fst R) \<or> (\<exists>a b. x = it\<lparr> item_filter_result := a, filtered_at := b \<rparr>)"
    unfolding R_def tr'_def
    by (auto simp: Let_def split_beta split: if_splits)
  then show ?case
  proof
    assume "x \<in> set (fst R)"
    from Cons.IH [OF this [unfolded R_def]] show ?thesis by auto
  next
    assume "\<exists>a b. x = it\<lparr> item_filter_result := a, filtered_at := b \<rparr>"
    then show ?thesis by auto
  qed
qed

lemma filter_loop_timestamp_ok:
  assumes "\<forall>it \<in> set items. timestamp_ok it"
      and "x \<in> set (fst (filter_loop clock relT novT scores k items tr fc))"
  shows "timestamp_ok x"
proof -
  from filter_loop_items [OF assms(2)] obtain it a b where
    "it \<in> set items" "x = it\<lparr> item_filter_result := a, filtered_at := b \<rparr>" by blast
  with assms(1) show ?thesis by (simp add: timestamp_ok_def timestamp_update)
qed

lemma calculateSignalScore_total:
  "timestamp_ok it \<Longrightarrow> \<exists>s. calculateSignalScore eng now it options = Inr s \<and> scored s = it"
  by (auto simp: calculateSignalScore_def timestamp_ok_def Let_def split: sum.splits)

lemma score_all_total:
  "\<forall>it \<in> set items. timestamp_ok it \<Longrightarrow>
   \<exists>ss. score_all eng clock k items options = Inr ss \<and> map scored ss = items"
proof (induction items arbitrary: k)
  case Nil
  show ?case by simp
next
  case (Cons it its)
  from Cons.prems have "timestamp_ok it" and rest: "\<forall>x \<in> set its. timestamp_ok x" by simp_all
  from calculateSignalScore_total [OF this(1), of eng "clock k" options] obtain s where
    s: "calculateSignalScore eng (clock k) it options = Inr s" "scored s = it" by blast
  from Cons.IH [OF rest, of "Suc k"] obtain ss where
    ss: "score_all eng clock (Suc k) its options = Inr ss" "map scored ss = its" by blast
  show ?case by (simp add: s ss)
qed

lemma insert_by_set: "set (insert_by key x ys) = insert x (set ys)"
  by (induction ys) auto

lemma sort_descending_set: "set (sort_descending key xs) = set xs"
  by (induction xs) (simp_all add: sort_descending_def insert_by_set)

lemma scoreAndSortSignals_total:
  assumes "\<forall>it \<in> set items. timestamp_ok it"
  shows "\<exists>ss. scoreAndSortSignals eng clock items options = Inr ss
            \<and> (\<forall>s \<in> set ss. timestamp_ok (scored s))"
proof -
  from score_all_total [OF assms, of eng clock 0 options] obtain ss where
    ss: "score_all eng clock 0 items options = Inr ss" "map scored ss = items" by blast
  have ok: "\<forall>s \<in> set ss. timestamp_ok (scored s)"
  proof
    fix s assume "s \<in> set ss"
    then have "scored s \<in> set (map scored ss)" by simp
    with ss(2) assms show "timestamp_ok (scored s)" by simp
  qed
  show ?thesis
    unfolding scoreAndSortSignals_def ss(1) using ok by (simp add: sort_descending_set)
qed

lemma label_all_total:
  "\<forall>s \<in> set ss. timestamp_ok (scored s) \<Longrightarrow> \<exists>ls. label_all clock k ss = Inr ls"
proof (induction ss arbitrary: k)
  case Nil
  show ?case by simp
next
  case (Cons s ss)
  from Cons.prems have "timestamp_ok (scored s)" and rest: "\<forall>x \<in> set ss. timestamp_ok (scored x)"
    by simp_all
  then obtain ts where ts: "getRelevantTimestamp (scored s) Map.empty = Inr ts"
    by (auto simp: timestamp_ok_def split: sum.splits)
  from Cons.IH [OF rest, of "Suc k"] obtain ls where "label_all clock (Suc k) ss = Inr ls" by blast
  then show ?case by (simp add: ts)
qed

lemma score_and_label_total:
  assumes "\<forall>it \<in> set items. timestamp_ok it"
  shows "\<exists>out. score_and_label eng clock n items = Inr out"
proof -
  from scoreAndSortSignals_total [OF assms, of eng "\<lambda>i. clock (n + i)"
         "default_scoring_options \<lparr> sortBy := Some ''score'' \<rparr>"]
  obtain ss where ss: "scoreAndSortSignals eng (\<lambda>i. clock (n + i)) items
         (default_scoring_options \<lparr> sortBy := Some ''score'' \<rparr>) = Inr ss"
    and ok: "\<forall>s \<in> set ss. timestamp_ok (scored s)" by blast
  from label_all_total [OF ok, of clock "n + length items"] obtain ls where
    "label_all clock (n + length items) ss = Inr ls" by blast
  then show ?thesis by (simp add: score_and_label_def ss)
qed

lemma filterItems_total:
  assumes p: "pipeline_total (env_pipeline env)"
      and ld: "\<And>ids s. \<exists>r. load (env_adapter env) ids s = Inr r"
      and sv: "\<And>rs s. \<exists>s'. save (env_adapter env) rs s = Inr s'"
      and cc: "0 < the_default 10 (concurrency options)"
      and cx: "context = Some (c # cs)"
      and ts: "\<forall>it \<in> set (valid_items (the_default [] items)). timestamp_ok it"
  shows "\<exists>out ec' tr'. filterItems env items context options ec tr = Some (Inr (out, ec', tr'))"
proof (cases "case items of None \<Rightarrow> True | Some l \<Rightarrow> length l = 0")
  case True
  then have "items = None \<or> items = Some []" by (cases items) auto
  from filterItems_no_items [OF this] show ?thesis by blast
next
  case False
  note i1 = this
  have c1: "\<not> (case context of None \<Rightarrow> True | Some c \<Rightarrow> c = [])" using cx by simp
  define V where "V = valid_items (the_default [] items)"
  show ?thesis
  proof (cases "length V = 0")
    case True
    then show ?thesis using i1 c1 unfolding filterItems_def Let_def V_def [symmetric] by simp
  next
    case False
    note v1 = this
    define E where "E = (case ec of Some e \<Rightarrow> e | None \<Rightarrow> EmbeddingContext (Some 1000))"
    from setContext_total [OF p, of "the_default [] context" E] obtain ce e1 where
      sc: "setContext (env_pipeline env) (the_default [] context) E = Inr (ce, e1)"
      and ce1: "contextEmbedding e1 \<noteq> None" by blast
    from batch_loop_total [OF p cc ce1, of V "[]"] obtain scores e2 where
      br: "batchRelevanceScores (env_pipeline env) V (the_default 10 (concurrency options)) e1
             = Some (Inr (scores, e2))"
      unfolding batchRelevanceScores_def by blast
    define FC where "FC = setContextKeywords (env_extractContextKeywords env (the_default [] context))
                               (setSignalKeywords
                                  (env_parseContextForSignalKeywords env (the_default [] context))
                                  (userKeywords options)
                                  (FilterContext (existingIds options)))"
    show ?thesis
    proof (cases tr)
      case None
      obtain fi tr2 fc2 where L: "filter_loop (env_clock env)
          (the_default DEFAULT_RELEVANCE_THRESHOLD (relevanceThreshold options))
          (the_default DEFAULT_NOVELTY_THRESHOLD (noveltyThreshold options)) scores 0 V tr FC
            = (fi, tr2, fc2)"
        by (metis prod_cases3)
      have "fst (snd (filter_loop (env_clock env)
          (the_default DEFAULT_RELEVANCE_THRESHOLD (relevanceThreshold options))
          (the_default DEFAULT_NOVELTY_THRESHOLD (noveltyThreshold options)) scores 0 V tr FC)) = None"
        unfolding filter_loop_tracker None by simp
      then have "tr2 = None" unfolding L by simp
      moreover have "\<forall>x \<in> set fi. timestamp_ok x"
        using filter_loop_timestamp_ok [OF ts [folded V_def]] L by (metis fst_conv)
      from score_and_label_total [OF this, of "env_engine env" "env_clock env" "3 * length V"]
      obtain out where "score_and_label (env_engine env) (env_clock env) (3 * length V) fi = Inr out"
        by blast
      ultimately show ?thesis using i1 c1 v1 sc br L [unfolded None] None
        unfolding filterItems_def Let_def V_def [symmetric] E_def [symmetric] FC_def [symmetric]
        by simp
    next
      case (Some t)
      obtain t1 where lb: "loadBatch (env_adapter env) (map item_id V) t = Inr t1"
      proof (cases "map item_id V = []")
        case True
        then show ?thesis using that by (simp add: loadBatch_def)
      next
        case False
        from ld [of "map item_id V" "storage t"] obtain r where
          "load (env_adapter env) (map item_id V) (storage t) = Inr r" by blast
        then show ?thesis using that False by (cases r) (simp add: loadBatch_def)
      qed
      obtain fi tr2 fc2 where L: "filter_loop (env_clock env)
          (the_default DEFAULT_RELEVANCE_THRESHOLD (relevanceThreshold options))
          (the_default DEFAULT_NOVELTY_THRESHOLD (noveltyThreshold options)) scores 0 V (Some t1) FC
            = (fi, tr2, fc2)"
        by (metis prod_cases3)
      have "fst (snd (filter_loop (env_clock env)
          (the_default DEFAULT_RELEVANCE_THRESHOLD (relevanceThreshold options))
          (the_default DEFAULT_NOVELTY_THRESHOLD (noveltyThreshold options)) scores 0 V (Some t1) FC))
            = Some (markSeen_calls t1 (seen_calls (env_clock env) 0 V))"
        unfolding filter_loop_tracker by simp
      then have tr2: "tr2 = Some (markSeen_calls t1 (seen_calls (env_clock env) 0 V))"
        unfolding L by simp
      obtain t3 where fl: "flush (env_adapter env) (markSeen_calls t1 (seen_calls (env_clock env) 0 V)) = Inr t3"
      proof (cases "pendingUpdates (markSeen_calls t1 (seen_calls (env_clock env) 0 V)) = []")
        case True
        then show ?thesis using that by (simp add: flush_def)
      next
        case False
        from sv [of "jsmap_values (pendingUpdates (markSeen_calls t1 (seen_calls (env_clock env) 0 V)))"
                    "storage (markSeen_calls t1 (seen_calls (env_clock env) 0 V))"]
        obtain s' where "save (env_adapter env)
             (jsmap_values (pendingUpdates (markSeen_calls t1 (seen_calls (env_clock env) 0 V))))
             (storage (markSeen_calls t1 (seen_calls (env_clock env) 0 V))) = Inr s'" by blast
        then show ?thesis using that False by (simp add: flush_def Let_def)
      qed
      have "\<forall>x \<in> set fi. timestamp_ok x"
        using filter_loop_timestamp_ok [OF ts [folded V_def]] L by (metis fst_conv)
      from score_and_label_total [OF this, of "env_engine env" "env_clock env" "3 * length V"]
      obtain out where sl:
        "score_and_label (env_engine env) (env_clock env) (3 * length V) fi = Inr out"
        by blast
      show ?thesis using i1 c1 v1 sc br L tr2 lb fl Some sl
        unfolding filterItems_def Let_def V_def [symmetric] E_def [symmetric] FC_def [symmetric]
        by simp
    qed
  qed
qed


lemma seen_calls_nth:
  "c \<in> set (seen_calls clock k items) \<Longrightarrow>
   \<exists>j < length items. c = (clock (3 * (k + j) + 1), item_id (items ! j),
                            plain \<lparr> seen_title = title (items ! j), seen_source = source (items ! j) \<rparr>)"
proof (induction items arbitrary: k)
  case Nil
  then show ?case by simp
next
  case (Cons it its)
  from Cons.prems have "c = (clock (3 * k + 1), item_id it, plain \<lparr> seen_title = title it, seen_source = source it \<rparr>)
      \<or> c \<in> set (seen_calls clock (Suc k) its)" by simp
  then show ?case
  proof
    assume "c = (clock (3 * k + 1), item_id it, plain \<lparr> seen_title = title it, seen_source = source it \<rparr>)"
    then show ?thesis by (intro exI [of _ 0]) simp
  next
    assume "c \<in> set (seen_calls clock (Suc k) its)"
    from Cons.IH [OF this] obtain j where j: "j < length its"
      "c = (clock (3 * (Suc k + j) + 1), item_id (its ! j),
             plain \<lparr> seen_title = title (its ! j), seen_source = source (its ! j) \<rparr>)" by blast
    then show ?thesis by (intro exI [of _ "Suc j"]) simp
  qed
qed

lemma example_valid_items:
  "valid_items [Some (example_item ''1'' '''' '''')] = [example_item ''1'' '''' '''']"
  by (simp add: valid_items_def List.map_filter_def example_item_def)

lemma example_setContext_1000:
  "setContext constant_pipeline ''Rust tools'' (EmbeddingContext (Some 1000)) = Inr ([1, 0], example_embedding_context)"
  by (simp add: setContext_def embed_def hash_examples EmbeddingContext_def lru_get_def
        jsmap_get_def computeEmbedding_examples lru_set_def jsmap_has_def DEFAULT_CACHE_SIZE_def
        example_embedding_context_def Let_def)

lemma example_loadBatch:
  "loadBatch MemoryStorageAdapter [''1''] example_tracker = Inr example_tracker"
  by (simp add: loadBatch_def MemoryStorageAdapter_def memory_load_def jsmap_get_def NoveltyTracker_def
        example_tracker_def)

lemma example_empty_text: "relevance_text (example_item i '''' '''') = []"
  by (simp add: relevance_text_def example_item_def trim_def is_space_def)

lemma example_batch_empty_text:
  "batchRelevanceScores constant_pipeline [example_item ''1'' '''' ''''] 10 example_embedding_context
     = Some (Inr ([(''1'', 0)], example_embedding_context))"
proof -
  have g: "relevance_group constant_pipeline (take 10 [example_item ''1'' '''' '''']) example_embedding_context
             = Inr ([(''1'', 0)], example_embedding_context)"
    by (simp add: relevance_group_def example_empty_text example_item_id example_embedding_context_def)
  show ?thesis unfolding batchRelevanceScores_def
    by (subst batch_loop_step [OF _ g]) (simp_all add: batch_loop_Nil)
qed


lemma example_filter_loop:
  "filter_loop (\<lambda>k. 1000 * int k) DEFAULT_RELEVANCE_THRESHOLD DEFAULT_NOVELTY_THRESHOLD [(''1'', 0)] 0
       [example_item ''1'' '''' ''''] (Some example_tracker) fc
     = ([], Some (markSeen example_tracker 1000 ''1'' (plain \<lparr> seen_title = [], seen_source = ''github'' \<rparr>)),
        fc_markSeen fc ''1'')"
  by (simp add: Let_def example_item_def jsmap_get_def the_default_def DEFAULT_RELEVANCE_THRESHOLD_def)

lemma example_flush:
  "flush MemoryStorageAdapter
     (markSeen example_tracker 1000 ''1'' (plain \<lparr> seen_title = [], seen_source = ''github'' \<rparr>))
   = Inr (example_tracker \<lparr> storage := [(''1'', example_seen_record)],
                            cache := [(''1'', example_seen_record)],
                            saveCalls := [[example_seen_record]] \<rparr>)"
  by (simp add: flush_def markSeen_def new_record_def plain_def example_tracker_def
        NoveltyTracker_def jsmap_get_def MemoryStorageAdapter_def memory_save_def
        jsmap_values_def example_seen_record_def Let_def)

lemma example_filter_run:
  "filterItems example_environment (Some [Some (example_item ''1'' '''' '''')]) (Some ''Rust tools'')
       default_filter_options None (Some example_tracker)
     = Some (Inr ([], Some example_embedding_context,
                  Some (example_tracker \<lparr> storage := [(''1'', example_seen_record)],
                            cache := [(''1'', example_seen_record)],
                            saveCalls := [[example_seen_record]] \<rparr>)))"
proof -
  have env: "env_pipeline example_environment = constant_pipeline"
     "env_adapter example_environment = MemoryStorageAdapter"
     "env_clock example_environment = (\<lambda>k. 1000 * int k)"
    by (simp_all add: example_environment_def)
  have opts: "relevanceThreshold default_filter_options = None"
      "noveltyThreshold default_filter_options = None"
      "concurrency default_filter_options = None"
    by (simp_all add: default_filter_options_def)
  show ?thesis
    unfolding filterItems_def Let_def env opts
    by (simp add: example_valid_items the_default_def example_setContext_1000 example_item_id
          example_loadBatch example_batch_empty_text
          example_filter_loop example_flush score_and_label_def scoreAndSortSignals_def
          sort_descending_def del: filter_loop.simps)
qed


lemma markSeen_calls_pending_other:
  "calls_on k cs = [] \<Longrightarrow>
   jsmap_get (pendingUpdates (markSeen_calls t cs)) k = jsmap_get (pendingUpdates t) k"
proof (induction cs arbitrary: t)
  case Nil
  then show ?case by simp
next
  case (Cons c cs)
  obtain now i md where c: "c = (now, i, md)" by (cases c) auto
  from Cons.prems have ne: "i \<noteq> k" and rest: "calls_on k cs = []"
    by (auto simp: calls_on_def c split: if_splits)
  show ?case unfolding c using ne by (simp add: Cons.IH [OF rest] markSeen_pending_get)
qed

lemma markSeen_lastSeen:
  assumes "own_lastSeen md = None"
  shows "\<exists>r. jsmap_get (cache (markSeen t now k md)) k = Some r \<and> lastSeen r = Some (Instant now)
        \<and> jsmap_get (pendingUpdates (markSeen t now k md)) k = Some r"
proof (cases "jsmap_get (cache t) k")
  case None
  then show ?thesis using assms
    by (simp add: markSeen_pending_get markSeen_cache_new new_record_def)
next
  case (Some r)
  then show ?thesis by (simp add: markSeen_pending_get markSeen_cache_existing)
qed

lemma markSeen_calls_last:
  assumes mine: "calls_on k cs \<noteq> []"
      and pl: "own_lastSeen (snd (snd (last (calls_on k cs)))) = None"
  shows "\<exists>r. jsmap_get (cache (markSeen_calls t cs)) k = Some r
            \<and> lastSeen r = Some (Instant (fst (last (calls_on k cs))))
            \<and> jsmap_get (pendingUpdates (markSeen_calls t cs)) k = Some r"
proof -
  from mine have "\<exists>x \<in> set cs. fst (snd x) = k"
    by (auto simp: calls_on_def filter_empty_conv)
  then obtain pre x post where split: "cs = pre @ x # post" "fst (snd x) = k"
      "\<forall>y \<in> set post. fst (snd y) \<noteq> k"
    using split_list_last_prop [of cs "\<lambda>x. fst (snd x) = k"] by blast
  obtain now0 md0 where x: "x = (now0, k, md0)" using split(2) by (cases x) auto
  have post_none: "calls_on k post = []" using split(3) by (auto simp: calls_on_def filter_empty_conv)
  define t1 where "t1 = markSeen_calls t pre"
  have lst: "last (calls_on k cs) = x"
    unfolding split(1) calls_on_def using post_none [unfolded calls_on_def] split(2) by simp
  have md0: "own_lastSeen md0 = None" using pl unfolding lst x by simp
  from markSeen_lastSeen [OF md0, of t1 now0 k] obtain r where
    r: "jsmap_get (cache (markSeen t1 now0 k md0)) k = Some r" "lastSeen r = Some (Instant now0)"
       "jsmap_get (pendingUpdates (markSeen t1 now0 k md0)) k = Some r" by blast
  have run: "markSeen_calls t cs = markSeen_calls (markSeen t1 now0 k md0) post"
    unfolding split(1) x t1_def by (simp add: markSeen_calls_append)
  have "jsmap_get (cache (markSeen_calls t cs)) k = Some r"
    unfolding run using r(1) post_none by (simp add: markSeen_calls_other)
  moreover have "jsmap_get (pendingUpdates (markSeen_calls t cs)) k = Some r"
    unfolding run using r(3) post_none by (simp add: markSeen_calls_pending_other)
  moreover have "lastSeen r = Some (Instant (fst (last (calls_on k cs))))" unfolding lst x using r(2) by simp
  ultimately show ?thesis by blast
qed

lemma markSeen_calls_saveCalls: "saveCalls (markSeen_calls t cs) = saveCalls t"
proof (induction cs arbitrary: t)
  case Nil
  show ?case by simp
next
  case (Cons c cs)
  obtain now i md where c: "c = (now, i, md)" by (cases c) auto
  show ?case unfolding c by (simp add: Cons.IH markSeen_frame)
qed

lemma loadBatch_saveCalls: "loadBatch ad ids t = Inr t1 \<Longrightarrow> saveCalls t1 = saveCalls t"
  by (auto simp: loadBatch_def split: if_splits sum.splits)

lemma flush_saves_pending:
  assumes fl: "flush ad t = Inr t'" and pend: "jsmap_get (pendingUpdates t) k = Some r"
  shows "saveCalls t' = saveCalls t @ [jsmap_values (pendingUpdates t)]
           \<and> r \<in> set (jsmap_values (pendingUpdates t)) \<and> pendingUpdates t' = []"
proof -
  from jsmap_get_in_set [OF pend] have mem: "(k, r) \<in> set (pendingUpdates t)" .
  then have ne: "pendingUpdates t \<noteq> []" by auto
  from mem have "r \<in> set (jsmap_values (pendingUpdates t))"
    unfolding jsmap_values_def by force
  moreover from fl ne have "saveCalls t' = saveCalls t @ [jsmap_values (pendingUpdates t)]
      \<and> pendingUpdates t' = []"
    by (auto simp: flush_def Let_def split: if_splits sum.splits)
  ultimately show ?thesis by simp
qed

lemma calls_on_seen_calls:
  assumes "it \<in> set items"
  shows "calls_on (item_id it) (seen_calls clock k items) \<noteq> []"
proof -
  from assms have "item_id it \<in> set (map (\<lambda>c. fst (snd c)) (seen_calls clock k items))"
    by (simp add: seen_calls_ids)
  then obtain c where "c \<in> set (seen_calls clock k items)" "fst (snd c) = item_id it" by auto
  then have "c \<in> set (calls_on (item_id it) (seen_calls clock k items))" by (simp add: calls_on_def)
  then show ?thesis by auto
qed

lemma calls_on_reading:
  assumes "c \<in> set (calls_on i (seen_calls clock 0 items))"
  shows "\<exists>j. j < length items \<and> item_id (items ! j) = i \<and> fst c = clock (3 * j + 1)
           \<and> own_firstSeen (snd (snd c)) = None \<and> own_lastSeen (snd (snd c)) = None"
proof -
  from assms have m: "c \<in> set (seen_calls clock 0 items)" and i: "fst (snd c) = i"
    by (auto simp: calls_on_def)
  from seen_calls_nth [OF m] obtain j where "j < length items"
    "c = (clock (3 * (0 + j) + 1), item_id (items ! j),
           plain \<lparr> seen_title = title (items ! j), seen_source = source (items ! j) \<rparr>)" by blast
  with i show ?thesis by (intro exI [of _ j]) (simp add: plain_def)
qed

lemma filterItems_marks_seen:
  assumes eq: "filterItems env items context options ec (Some t) = Some (Inr (out, ec', tr'))"
      and it: "it \<in> set (valid_items (the_default [] items))"
  shows "\<exists>t1 t3 r recs j.
            loadBatch (env_adapter env) (map item_id (valid_items (the_default [] items))) t = Inr t1
          \<and> tr' = Some t3
          \<and> jsmap_get (cache t3) (item_id it) = Some r
          \<and> j < length (valid_items (the_default [] items))
          \<and> item_id (valid_items (the_default [] items) ! j) = item_id it
          \<and> lastSeen r = Some (Instant (env_clock env (3 * j + 1)))
          \<and> saveCalls t3 = saveCalls t @ [recs] \<and> r \<in> set recs
          \<and> (jsmap_get (cache t1) (item_id it) = None \<longrightarrow>
                (\<exists>i. i < length (valid_items (the_default [] items))
                    \<and> item_id (valid_items (the_default [] items) ! i) = item_id it
                    \<and> firstSeen r = Some (Instant (env_clock env (3 * i + 1)))))"
proof -
  define V where "V = valid_items (the_default [] items)"
  define cs where "cs = seen_calls (env_clock env) 0 V"
  from it have ne: "valid_items (the_default [] items) \<noteq> []" by auto
  from filterItems_tracker [OF eq ne] obtain t1 t3 where
    lb: "loadBatch (env_adapter env) (map item_id V) t = Inr t1"
    and fl: "flush (env_adapter env) (markSeen_calls t1 cs) = Inr t3"
    and tr': "tr' = Some t3" unfolding V_def cs_def by blast
  have mine: "calls_on (item_id it) cs \<noteq> []"
    unfolding cs_def by (rule calls_on_seen_calls) (use it V_def in simp)
  from mine have lastm: "last (calls_on (item_id it) cs) \<in> set (calls_on (item_id it) cs)" by simp
  from calls_on_reading [OF lastm [unfolded cs_def]]
  have pll: "own_lastSeen (snd (snd (last (calls_on (item_id it) cs)))) = None"
    unfolding cs_def by blast
  from markSeen_calls_last [OF mine pll, of t1] obtain r where
    r: "jsmap_get (cache (markSeen_calls t1 cs)) (item_id it) = Some r"
       "lastSeen r = Some (Instant (fst (last (calls_on (item_id it) cs))))"
       "jsmap_get (pendingUpdates (markSeen_calls t1 cs)) (item_id it) = Some r" by blast
  have c3: "jsmap_get (cache t3) (item_id it) = Some r" using flush_cache [OF fl] r(1) by simp
  from mine have "last (calls_on (item_id it) cs) \<in> set (calls_on (item_id it) cs)" by simp
  from calls_on_reading [OF this [unfolded cs_def]] obtain j where
    j: "j < length V" "item_id (V ! j) = item_id it"
       "fst (last (calls_on (item_id it) cs)) = env_clock env (3 * j + 1)"
    unfolding cs_def by blast
  have ls: "lastSeen r = Some (Instant (env_clock env (3 * j + 1)))" using r(2) j(3) by simp
  define recs where "recs = jsmap_values (pendingUpdates (markSeen_calls t1 cs))"
  from flush_saves_pending [OF fl r(3)] have
    sv: "saveCalls t3 = saveCalls t @ [recs]" and mem: "r \<in> set recs"
    unfolding recs_def by (simp_all add: markSeen_calls_saveCalls loadBatch_saveCalls [OF lb])
  have fresh: "jsmap_get (cache t1) (item_id it) = None \<longrightarrow>
                (\<exists>i. i < length V \<and> item_id (V ! i) = item_id it
                    \<and> firstSeen r = Some (Instant (env_clock env (3 * i + 1))))"
  proof
    assume f: "jsmap_get (cache t1) (item_id it) = None"
    from mine have hdm: "hd (calls_on (item_id it) cs) \<in> set (calls_on (item_id it) cs)" by simp
    from calls_on_reading [OF hdm [unfolded cs_def]]
    have pl: "own_firstSeen (snd (snd (hd (calls_on (item_id it) cs)))) = None"
      unfolding cs_def by blast
    from markSeen_calls_created [OF f mine] r(1) have
      fs: "firstSeen r = Some (Instant (fst (hd (calls_on (item_id it) cs))))"
      by (auto simp: new_record_def pl)
    from mine have "hd (calls_on (item_id it) cs) \<in> set (calls_on (item_id it) cs)" by simp
    from calls_on_reading [OF this [unfolded cs_def]] obtain i where
      "i < length V" "item_id (V ! i) = item_id it"
      "fst (hd (calls_on (item_id it) cs)) = env_clock env (3 * i + 1)"
      unfolding cs_def by blast
    with fs show "\<exists>i. i < length V \<and> item_id (V ! i) = item_id it
                    \<and> firstSeen r = Some (Instant (env_clock env (3 * i + 1)))"
      by (intro exI [of _ i]) simp
  qed
  show ?thesis
    unfolding V_def [symmetric]
    by (intro exI [of _ t1] exI [of _ t3] exI [of _ r] exI [of _ recs] exI [of _ j] conjI
          lb tr' c3 j(1) j(2) ls sv mem fresh)
qed


text \<open>
  C10. In the loop of \<^verbatim>\<open>filterItems\<close> the calls of \<^verbatim>\<open>markSeen\<close> come before the test of the
  thresholds. So the tracker that leaves the loop is the tracker that entered it after
  one \<^verbatim>\<open>markSeen\<close> call per valid item, in order, whatever the relevance scores and the
  two thresholds are, and the run-local seen set has gained the id of every item. For a
  run of \<^verbatim>\<open>filterItems\<close> with a tracker that returns, every valid item, kept or dropped,
  has a record in the tracker's cache whose \<^verbatim>\<open>lastSeen\<close> is a clock reading of this run,
  the record is among those the run hands to the storage backend, and for an id without
  a record before the loop \<^verbatim>\<open>firstSeen\<close> is a clock reading of this run as well.
\<close>

theorem every_valid_item_is_marked_seen:
  "fst (snd (filter_loop clock relT novT scores k its tr fc))
       = map_option (\<lambda>t. markSeen_calls t (seen_calls clock k its)) tr
   \<and> seenIds (snd (snd (filter_loop clock relT novT scores k its tr fc)))
       = seenIds fc \<union> set (map item_id its)
   \<and> (filterItems env items context options ec (Some t) = Some (Inr (out, ec', tr'))
        \<and> it \<in> set (valid_items (the_default [] items))
      \<longrightarrow> (\<exists>t1 t3 r recs j.
            loadBatch (env_adapter env) (map item_id (valid_items (the_default [] items))) t = Inr t1
          \<and> tr' = Some t3
          \<and> jsmap_get (cache t3) (item_id it) = Some r
          \<and> j < length (valid_items (the_default [] items))
          \<and> item_id (valid_items (the_default [] items) ! j) = item_id it
          \<and> lastSeen r = Some (Instant (env_clock env (3 * j + 1)))
          \<and> saveCalls t3 = saveCalls t @ [recs] \<and> r \<in> set recs
          \<and> (jsmap_get (cache t1) (item_id it) = None \<longrightarrow>
                (\<exists>i. i < length (valid_items (the_default [] items))
                    \<and> item_id (valid_items (the_default [] items) ! i) = item_id it
                    \<and> firstSeen r = Some (Instant (env_clock env (3 * i + 1)))))))"
proof (intro conjI impI)
  show "fst (snd (filter_loop clock relT novT scores k its tr fc))
       = map_option (\<lambda>t. markSeen_calls t (seen_calls clock k its)) tr"
    by (rule filter_loop_tracker)
next
  show "seenIds (snd (snd (filter_loop clock relT novT scores k its tr fc)))
       = seenIds fc \<union> set (map item_id its)"
    by (rule filter_loop_seenIds)
next
  assume h: "filterItems env items context options ec (Some t) = Some (Inr (out, ec', tr'))
        \<and> it \<in> set (valid_items (the_default [] items))"
  then have eq: "filterItems env items context options ec (Some t) = Some (Inr (out, ec', tr'))"
    and it: "it \<in> set (valid_items (the_default [] items))" by blast+
  show "\<exists>t1 t3 r recs j.
            loadBatch (env_adapter env) (map item_id (valid_items (the_default [] items))) t = Inr t1
          \<and> tr' = Some t3
          \<and> jsmap_get (cache t3) (item_id it) = Some r
          \<and> j < length (valid_items (the_default [] items))
          \<and> item_id (valid_items (the_default [] items) ! j) = item_id it
          \<and> lastSeen r = Some (Instant (env_clock env (3 * j + 1)))
          \<and> saveCalls t3 = saveCalls t @ [recs] \<and> r \<in> set recs
          \<and> (jsmap_get (cache t1) (item_id it) = None \<longrightarrow>
                (\<exists>i. i < length (valid_items (the_default [] items))
                    \<and> item_id (valid_items (the_default [] items) ! i) = item_id it
                    \<and> firstSeen r = Some (Instant (env_clock env (3 * i + 1)))))"
    by (rule filterItems_marks_seen [OF eq it])
qed

theorem every_valid_item_is_marked_seen_witness:
  "filterItems example_environment (Some [Some (example_item ''1'' '''' '''')]) (Some ''Rust tools'')
       default_filter_options None (Some example_tracker)
     = Some (Inr ([], Some example_embedding_context,
                  Some (example_tracker \<lparr> storage := [(''1'', example_seen_record)],
                            cache := [(''1'', example_seen_record)],
                            saveCalls := [[example_seen_record]] \<rparr>)))
   \<and> (\<exists>r. jsmap_get (cache (example_tracker \<lparr> storage := [(''1'', example_seen_record)],
                            cache := [(''1'', example_seen_record)],
                            saveCalls := [[example_seen_record]] \<rparr>)) ''1'' = Some r
         \<and> firstSeen r = Some (Instant 1000) \<and> lastSeen r = Some (Instant 1000)
         \<and> r \<in> set [example_seen_record])"
proof -
  define V where "V = valid_items (the_default [] (Some [Some (example_item ''1'' '''' '''')]))"
  have V: "V = [example_item ''1'' '''' '''']"
    unfolding V_def by (simp add: the_default_def example_valid_items)
  have h: "filterItems example_environment (Some [Some (example_item ''1'' '''' '''')]) (Some ''Rust tools'')
       default_filter_options None (Some example_tracker)
     = Some (Inr ([], Some example_embedding_context,
                  Some (example_tracker \<lparr> storage := [(''1'', example_seen_record)],
                            cache := [(''1'', example_seen_record)],
                            saveCalls := [[example_seen_record]] \<rparr>)))
     \<and> example_item ''1'' '''' '''' \<in> set V"
    by (simp add: example_filter_run V)
  from every_valid_item_is_marked_seen [THEN conjunct2, THEN conjunct2, THEN mp, OF h [unfolded V_def]]
  obtain t1 t3 r recs j where
    lb: "loadBatch (env_adapter example_environment) (map item_id V) example_tracker = Inr t1"
    and t3: "Some (example_tracker \<lparr> storage := [(''1'', example_seen_record)],
                            cache := [(''1'', example_seen_record)],
                            saveCalls := [[example_seen_record]] \<rparr>) = Some t3"
    and c: "jsmap_get (cache t3) (item_id (example_item ''1'' '''' '''')) = Some r"
    and j: "j < length V" "lastSeen r = Some (Instant (env_clock example_environment (3 * j + 1)))"
    and sv: "saveCalls t3 = saveCalls example_tracker @ [recs]" "r \<in> set recs"
    and fresh: "jsmap_get (cache t1) (item_id (example_item ''1'' '''' '''')) = None \<longrightarrow>
                (\<exists>i. i < length V
                    \<and> item_id (V ! i) = item_id (example_item ''1'' '''' '''')
                    \<and> firstSeen r = Some (Instant (env_clock example_environment (3 * i + 1))))"
    unfolding V_def [symmetric] by (elim exE conjE) (rule that; assumption)
  have t1: "t1 = example_tracker"
    using lb by (simp add: V example_item_id example_loadBatch example_environment_def)
  have "jsmap_get (cache t1) (item_id (example_item ''1'' '''' '''')) = None"
    unfolding t1 by (simp add: example_tracker_def NoveltyTracker_def jsmap_get_def)
  with fresh have fs: "firstSeen r = Some (Instant 1000)" by (auto simp: V example_environment_def)
  from j have ls: "lastSeen r = Some (Instant 1000)" by (simp add: V example_environment_def)
  from sv t3 have mem: "r \<in> set [example_seen_record]"
    by (auto simp: example_tracker_def NoveltyTracker_def)
  from c t3 have c': "jsmap_get (cache (example_tracker \<lparr> storage := [(''1'', example_seen_record)],
                            cache := [(''1'', example_seen_record)],
                            saveCalls := [[example_seen_record]] \<rparr>)) ''1'' = Some r"
    by (auto simp: example_item_id)
  show ?thesis
    by (intro conjI example_filter_run exI [of _ r] c' fs ls mem)
qed

text \<open>
  C4, as the claim states it, fails: a call without items is not an error. With an empty
  array of items \<^verbatim>\<open>filterItems\<close> returns the empty array, also when the context is
  missing.
\<close>

theorem filterItems_without_items_returns_empty_list:
  "filterItems example_environment (Some []) (Some ''Rust tools'') default_filter_options None
       (Some example_tracker)
     = Some (Inr ([], None, Some example_tracker))
   \<and> filterItems example_environment (Some []) None default_filter_options None
       (Some example_tracker)
     = Some (Inr ([], None, Some example_tracker))
   \<and> filterItems example_environment (Some []) (Some ''Rust tools'') default_filter_options None
       (Some example_tracker)
     \<noteq> Some (Inl ContextMustBeNonEmptyString)"
  by (simp add: filterItems_no_items)

text \<open>
  C4, amended. The input validation of \<^verbatim>\<open>filterItems\<close> has three outcomes, none of them
  partial. Without items (the argument missing or an empty array) the call returns the
  empty list at once, whatever the context is; it is not an error, and the embedding
  context and the novelty tracker are left as they were. With at least one item and a
  context that is missing, not a string or empty, the call throws
  \<^verbatim>\<open>Context must be a non-empty string\<close>. With a context and items none of which is
  valid, the call returns the empty list as well.
\<close>

theorem filterItems_validates_its_input:
  "(items = None \<or> items = Some []
      \<longrightarrow> filterItems env items context options ec tr = Some (Inr ([], ec, tr)))
   \<and> (items = Some (x # xs) \<and> (context = None \<or> context = Some [])
      \<longrightarrow> filterItems env items context options ec tr = Some (Inl ContextMustBeNonEmptyString))
   \<and> (items = Some l \<and> valid_items l = [] \<and> context = Some (c # cs)
      \<longrightarrow> filterItems env items context options ec tr = Some (Inr ([], ec, tr)))"
proof (intro conjI impI)
  assume "items = None \<or> items = Some []"
  then show "filterItems env items context options ec tr = Some (Inr ([], ec, tr))"
    by (rule filterItems_no_items)
next
  assume "items = Some (x # xs) \<and> (context = None \<or> context = Some [])"
  then have 1: "items = Some (x # xs)" and 2: "context = None \<or> context = Some []" by blast+
  show "filterItems env items context options ec tr = Some (Inl ContextMustBeNonEmptyString)"
    by (rule filterItems_bad_context [OF 1 2])
next
  assume "items = Some l \<and> valid_items l = [] \<and> context = Some (c # cs)"
  then have 1: "items = Some l" and 2: "valid_items l = []" and 3: "context = Some (c # cs)"
    by blast+
  show "filterItems env items context options ec tr = Some (Inr ([], ec, tr))"
    by (rule filterItems_no_valid_items [OF 1 2 3])
qed

theorem filterItems_validates_its_input_witness:
  "filterItems example_environment None (Some ''Rust tools'') default_filter_options None
       (Some example_tracker)
     = Some (Inr ([], None, Some example_tracker))
   \<and> filterItems example_environment (Some [Some (example_item ''1'' ''Rust'' '''')]) (Some '''')
       default_filter_options None (Some example_tracker)
     = Some (Inl ContextMustBeNonEmptyString)
   \<and> filterItems example_environment (Some [None, Some (example_item '''' ''Rust'' '''')])
       (Some ''Rust tools'') default_filter_options None (Some example_tracker)
     = Some (Inr ([], None, Some example_tracker))"
proof -
  note T = filterItems_validates_its_input
  have v: "valid_items [None, Some (example_item '''' ''Rust'' '''')] = []"
    by (simp add: valid_items_def List.map_filter_def example_item_def)
  have A: "filterItems example_environment None (Some ''Rust tools'') default_filter_options None
       (Some example_tracker) = Some (Inr ([], None, Some example_tracker))"
    by (rule T [THEN conjunct1, THEN mp]) simp
  have B: "filterItems example_environment (Some [Some (example_item ''1'' ''Rust'' '''')]) (Some '''')
       default_filter_options None (Some example_tracker)
     = Some (Inl ContextMustBeNonEmptyString)"
    by (rule T [THEN conjunct2, THEN conjunct1, THEN mp]) simp
  have C: "filterItems example_environment (Some [None, Some (example_item '''' ''Rust'' '''')])
       (Some ''Rust tools'') default_filter_options None (Some example_tracker)
     = Some (Inr ([], None, Some example_tracker))"
    by (rule T [where c = "CHR ''R''" and cs = "''ust tools''"
                and l = "[None, Some (example_item '''' ''Rust'' '''')]",
              THEN conjunct2, THEN conjunct2, THEN mp])
       (simp add: v)
  show ?thesis by (intro conjI A B C)
qed

end
